theory Spec2Isabelle
  imports Main
begin

section \<open>The search endpoint of KatelyaTV: src/app/api/search/route.ts\<close>

text \<open>
  The handler \<open>GET\<close> reads three query parameters and one header, asks four external
  collaborators (\<open>getCacheTime\<close>, \<open>getStorage().getUserSettings\<close>,
  \<open>getAvailableApiSites\<close>, \<open>searchFromApi\<close>) and returns what \<open>addCorsHeaders\<close>
  makes of the response it has built. The collaborators live outside the file, so they are
  parameters of the model (the record \<open>env\<close>); each of them may throw, which is the
  left summand of its result. The model returns, next to the result of the handler, the
  list of the calls it made to the collaborators, in the order of the calls.
\<close>

subsection \<open>Values\<close>

text \<open>A thrown JavaScript value; only its presence matters to the handler.\<close>

datatype exn = Error string

text \<open>
  The value of the property \<open>filter_adult_content\<close>, when the settings object has one.
  The handler compares it with \<open>false\<close> by \<open>!==\<close>, which is strict: no value but the
  boolean \<open>false\<close> is equal to \<open>false\<close>.
\<close>

datatype jsval = JNull | JBool bool | JNumber int | JString string

text \<open>
  What \<open>getUserSettings\<close> resolves to is \<open>None\<close> for \<open>null\<close> and \<open>undefined\<close> and
  a settings object otherwise; the field is \<open>None\<close> when the object has no property
  \<open>filter_adult_content\<close> (reading it gives \<open>undefined\<close>).
\<close>

record userSettings =
  filter_adult_content :: "jsval option"

text \<open>
  A JavaScript number, as \<open>Number::toString\<close> of ECMAScript sees it: \<open>NaN\<close>, an
  infinity or a zero with its sign, or a finite number other than zero. \<open>Finite negative s e\<close>
  is the number that \<open>s\<close> times the power \<open>e\<close> of ten stands for, negated when
  \<open>negative\<close>, where \<open>s\<close> is the shortest run of decimal digits that identifies the
  number (the \<open>s\<close> of \<open>Number::toString\<close>, whose \<open>n\<close> is \<open>e\<close> plus the number of
  digits of \<open>s\<close>): 7200 is \<open>Finite False 72 2\<close>, and 0.5 is \<open>Finite False 5 (- 1)\<close>.
  Being the shortest, \<open>s\<close> is positive and does not end in 0 (\<open>wellFormed\<close>).
\<close>

datatype number = NaN | Infinity bool | Zero bool | Finite bool nat int

fun wellFormed :: "number \<Rightarrow> bool" where
  "wellFormed (Finite negative s e) = (0 < s \<and> s mod 10 \<noteq> 0)"
| "wellFormed _ = True"

text \<open>The state in which \<open>Promise.allSettled\<close> finds a promise.\<close>

datatype 'a settled = Fulfilled (val: 'a) | Rejected (reason: exn)

text \<open>
  The request: the query parameters in the order of the URL (\<open>searchParams.get\<close> returns
  the first value of a name, \<open>null\<close> when there is none) and the lookup of a header by
  name (\<open>request.headers.get\<close>, \<open>null\<close> when the header is absent).
\<close>

record request =
  searchParams :: "(string \<times> string) list"
  request_headers :: "string \<Rightarrow> string option"

definition searchParams_get :: "request \<Rightarrow> string \<Rightarrow> string option" where
  "searchParams_get req name = map_of (searchParams req) name"

definition headers_get :: "request \<Rightarrow> string \<Rightarrow> string option" where
  "headers_get req name = request_headers req name"

text \<open>
  The JSON body and the response. \<open>NextResponse.json(body, init)\<close> takes the status
  from \<open>init\<close>, 200 when \<open>init\<close> has none, and the headers from \<open>init\<close>; the field
  \<open>headers\<close> holds the headers the handler supplies.
\<close>

record 'r body =
  regular_results :: "'r list"
  adult_results :: "'r list"
  error :: "string option"

record 'r response =
  status :: nat
  body :: "'r body"
  headers :: "(string \<times> string) list"

record init =
  init_status :: "nat option"
  init_headers :: "(string \<times> string) list"

definition NextResponse_json :: "'r body \<Rightarrow> init \<Rightarrow> 'r response" where
  "NextResponse_json b i =
     \<lparr>status = (case init_status i of None \<Rightarrow> 200 | Some s \<Rightarrow> s),
      body = b,
      headers = init_headers i\<rparr>"

subsection \<open>The collaborators and the calls made to them\<close>

record ('s, 'r) env =
  getCacheTime :: "exn + number"
  getUserSettings :: "string \<Rightarrow> exn + userSettings option"
  getAvailableApiSites :: "bool \<Rightarrow> exn + 's list option"
  searchFromApi :: "'s \<Rightarrow> string \<Rightarrow> exn + 'r list settled"
  addCorsHeaders :: "'r response \<Rightarrow> exn + 'r response"

text \<open>
  \<open>getCacheTime\<close> resolves to a number, of seconds. \<open>getUserSettings u\<close> stands for
  \<open>await getStorage().getUserSettings(u)\<close>, a throw of \<open>getStorage\<close> included.
  \<open>getAvailableApiSites\<close> resolves to the list of providers, \<open>None\<close> for \<open>null\<close> and
  \<open>undefined\<close>. \<open>searchFromApi\<close> either throws before it returns, or returns a promise,
  which settles.
\<close>

datatype ('s, 'r) call =
    Call_getCacheTime
  | Call_getUserSettings string
  | Call_getAvailableApiSites bool
  | Call_searchFromApi 's string
  | Call_addCorsHeaders "'r response"

subsection \<open>Strings\<close>

text \<open>A string is falsy when it is \<open>null\<close>, \<open>undefined\<close> or empty.\<close>

fun truthy :: "string option \<Rightarrow> bool" where
  "truthy None = False"
| "truthy (Some s) = (s \<noteq> [])"

definition startsWith :: "string \<Rightarrow> string \<Rightarrow> bool" where
  "startsWith s p = (take (length p) s = p)"

definition substring :: "string \<Rightarrow> nat \<Rightarrow> string" where
  "substring s n = drop n s"

text \<open>
  The template literals apply \<open>Number::toString\<close> to the cache time. For a finite number
  other than zero, with the \<open>k\<close> digits of \<open>s\<close> and \<open>n = k + e\<close>: the digits and
  \<open>n - k\<close> zeros when \<open>k \<le> n \<le> 21\<close>; the digits with a point after the first
  \<open>n\<close> when \<open>0 < n \<le> 21\<close>; \<open>0.\<close>, \<open>- n\<close> zeros and the digits when
  \<open>- 6 < n \<le> 0\<close>; and otherwise the exponent notation, with the sign and the decimal
  digits of \<open>n - 1\<close> after the letter \<open>e\<close>.
\<close>

definition digit :: "nat \<Rightarrow> char" where
  "digit d = ''0123456789'' ! d"

fun digits :: "nat \<Rightarrow> string" where
  "digits n = (if n < 10 then [digit n] else digits (n div 10) @ [digit (n mod 10)])"

declare digits.simps [simp del]

definition exponentString :: "int \<Rightarrow> string" where
  "exponentString x = (if x < 0 then ''-'' else ''+'') @ digits (nat \<bar>x\<bar>)"

definition finiteToString :: "nat \<Rightarrow> int \<Rightarrow> string" where
  "finiteToString s e =
     (let ds = digits s; k = int (length ds); n = k + e
      in if k \<le> n \<and> n \<le> 21 then ds @ replicate (nat (n - k)) CHR ''0''
         else if 0 < n \<and> n \<le> 21 then take (nat n) ds @ ''.'' @ drop (nat n) ds
         else if - 6 < n \<and> n \<le> 0 then ''0.'' @ replicate (nat (- n)) CHR ''0'' @ ds
         else if k = 1 then ds @ ''e'' @ exponentString (n - 1)
         else take 1 ds @ ''.'' @ drop 1 ds @ ''e'' @ exponentString (n - 1))"

fun numberToString :: "number \<Rightarrow> string" where
  "numberToString NaN = ''NaN''"
| "numberToString (Infinity negative) = (if negative then ''-Infinity'' else ''Infinity'')"
| "numberToString (Zero negative) = ''0''"
| "numberToString (Finite negative s e) =
     (if negative then ''-'' @ finiteToString s e else finiteToString s e)"

text \<open>Reading decimal digits back, for the proofs.\<close>

definition isDigit :: "char \<Rightarrow> bool" where
  "isDigit c = (c \<in> set ''0123456789'')"

definition digitValue :: "char \<Rightarrow> nat" where
  "digitValue c = the (map_of (zip ''0123456789'' [0, 1, 2, 3, 4, 5, 6, 7, 8, 9]) c)"

definition numeralValue :: "string \<Rightarrow> nat" where
  "numeralValue ds = foldl (\<lambda>a c. 10 * a + digitValue c) 0 ds"

subsection \<open>The handler\<close>

text \<open>Lines 20 to 26: the user name, from the parameter \<open>user\<close> or the header.\<close>

definition resolveUserName :: "request \<Rightarrow> string option" where
  "resolveUserName req =
     (let userName = (if truthy (searchParams_get req ''user'')
                      then searchParams_get req ''user'' else None)
      in if \<not> truthy userName
         then (case headers_get req ''Authorization'' of
                 None \<Rightarrow> userName
               | Some authHeader \<Rightarrow>
                   if authHeader \<noteq> [] \<and> startsWith authHeader ''Bearer ''
                   then Some (substring authHeader 7)
                   else userName)
         else userName)"

text \<open>The three cache headers, the same on the three responses with status 200.\<close>

definition cacheHeaders :: "number \<Rightarrow> (string \<times> string) list" where
  "cacheHeaders cacheTime =
     [(''Cache-Control'',
         ''public, max-age='' @ numberToString cacheTime @ '', s-maxage='' @ numberToString cacheTime),
      (''CDN-Cache-Control'', ''public, s-maxage='' @ numberToString cacheTime),
      (''Vercel-CDN-Cache-Control'', ''public, s-maxage='' @ numberToString cacheTime)]"

definition emptyResponse :: "number \<Rightarrow> 'r response" where
  "emptyResponse cacheTime =
     NextResponse_json \<lparr>regular_results = [], adult_results = [], error = None\<rparr>
       \<lparr>init_status = None, init_headers = cacheHeaders cacheTime\<rparr>"

text \<open>The message of line 103, in UTF-8.\<close>

definition searchFailed :: string where
  "searchFailed =
     [CHR 0xE6, CHR 0x90, CHR 0x9C, CHR 0xE7, CHR 0xB4, CHR 0xA2,
      CHR 0xE5, CHR 0xA4, CHR 0xB1, CHR 0xE8, CHR 0xB4, CHR 0xA5]"

definition errorResponse :: "'r response" where
  "errorResponse =
     NextResponse_json \<lparr>regular_results = [], adult_results = [], error = Some searchFailed\<rparr>
       \<lparr>init_status = Some 500, init_headers = []\<rparr>"

text \<open>\<open>return addCorsHeaders(response)\<close>, with the call written to the log.\<close>

definition respond ::
  "('s, 'r) env \<Rightarrow> 'r response \<Rightarrow> (exn + 'r response) \<times> ('s, 'r) call list" where
  "respond env response = (addCorsHeaders env response, [Call_addCorsHeaders response])"

text \<open>
  Lines 51 to 60: the stored setting. The lookup is made for a truthy user name only, and
  its own \<open>catch\<close> turns a throw into \<open>true\<close>. \<open>userSettings?.filter_adult_content\<close>
  is \<open>undefined\<close> when \<open>userSettings\<close> is \<open>null\<close> or \<open>undefined\<close>.
\<close>

definition optional_filter_adult_content :: "userSettings option \<Rightarrow> jsval option" where
  "optional_filter_adult_content userSettings =
     (case userSettings of None \<Rightarrow> None | Some s \<Rightarrow> filter_adult_content s)"

definition shouldFilterAdult ::
  "('s, 'r) env \<Rightarrow> string option \<Rightarrow> bool \<times> ('s, 'r) call list" where
  "shouldFilterAdult env userName =
     (case userName of
        None \<Rightarrow> (True, [])
      | Some u \<Rightarrow>
          if u = [] then (True, [])
          else (case getUserSettings env u of
                  Inl e \<Rightarrow> (True, [Call_getUserSettings u])
                | Inr userSettings \<Rightarrow>
                    (optional_filter_adult_content userSettings \<noteq> Some (JBool False),
                     [Call_getUserSettings u])))"

definition includeAdult :: "request \<Rightarrow> bool" where
  "includeAdult req = (searchParams_get req ''include_adult'' = Some ''true'')"

text \<open>Line 63.\<close>

definition finalShouldFilter :: "('s, 'r) env \<Rightarrow> request \<Rightarrow> bool" where
  "finalShouldFilter env req =
     (fst (shouldFilterAdult env (resolveUserName req)) \<or> \<not> includeAdult req)"

text \<open>
  Line 83: \<open>availableSites.map((site) => searchFromApi(site, query))\<close>. The calls are made
  in the order of the list; a call that throws ends the \<open>map\<close>.
\<close>

fun searchPromises ::
  "('s, 'r) env \<Rightarrow> 's list \<Rightarrow> string \<Rightarrow> (exn + 'r list settled list) \<times> ('s, 'r) call list" where
  "searchPromises env [] query = (Inr [], [])"
| "searchPromises env (site # sites) query =
     (case searchFromApi env site query of
        Inl e \<Rightarrow> (Inl e, [Call_searchFromApi site query])
      | Inr p \<Rightarrow>
          (case searchPromises env sites query of
             (Inl e, log) \<Rightarrow> (Inl e, Call_searchFromApi site query # log)
           | (Inr ps, log) \<Rightarrow> (Inr (p # ps), Call_searchFromApi site query # log)))"

text \<open>
  Lines 85 to 87: the values of the fulfilled promises, flattened. The selector \<open>val\<close> is
  applied to fulfilled promises only, as \<open>.value\<close> is after the \<open>filter\<close>.
\<close>

definition is_fulfilled :: "'a settled \<Rightarrow> bool" where
  "is_fulfilled r = (case r of Fulfilled v \<Rightarrow> True | Rejected e \<Rightarrow> False)"

definition flatMap :: "('a \<Rightarrow> 'b list) \<Rightarrow> 'a list \<Rightarrow> 'b list" where
  "flatMap f xs = concat (map f xs)"

definition searchResults :: "'r list settled list \<Rightarrow> 'r list" where
  "searchResults results = flatMap val (filter is_fulfilled results)"

text \<open>Lines 47 to 100: the body of the \<open>try\<close>.\<close>

definition tryBlock ::
  "('s, 'r) env \<Rightarrow> request \<Rightarrow> string \<Rightarrow> number \<Rightarrow> (exn + 'r response) \<times> ('s, 'r) call list" where
  "tryBlock env req query cacheTime =
     (let log1 = snd (shouldFilterAdult env (resolveUserName req))
                   @ [Call_getAvailableApiSites (finalShouldFilter env req)];
          noSites = (let (r, log2) = respond env (emptyResponse cacheTime) in (r, log1 @ log2))
      in case getAvailableApiSites env (finalShouldFilter env req) of
           Inl e \<Rightarrow> (Inl e, log1)
         | Inr None \<Rightarrow> noSites
         | Inr (Some availableSites) \<Rightarrow>
             if length availableSites = 0 then noSites
             else (case searchPromises env availableSites query of
                     (Inl e, log2) \<Rightarrow> (Inl e, log1 @ log2)
                   | (Inr results, log2) \<Rightarrow>
                       (let (r, log3) =
                              respond env
                                (NextResponse_json
                                   \<lparr>regular_results = searchResults results,
                                    adult_results = [], error = None\<rparr>
                                   \<lparr>init_status = None, init_headers = cacheHeaders cacheTime\<rparr>)
                        in (r, log1 @ log2 @ log3))))"

text \<open>
  The handler. \<open>getCacheTime\<close> is awaited outside the \<open>try\<close>: when it throws, so does
  the handler. Whatever is thrown inside the \<open>try\<close> is caught at line 101.
\<close>

definition GET ::
  "('s, 'r) env \<Rightarrow> request \<Rightarrow> (exn + 'r response) \<times> ('s, 'r) call list" where
  "GET env req =
     (case getCacheTime env of
        Inl e \<Rightarrow> (Inl e, [Call_getCacheTime])
      | Inr cacheTime \<Rightarrow>
          (let noQuery = (let (r, log) = respond env (emptyResponse cacheTime)
                          in (r, Call_getCacheTime # log))
           in case searchParams_get req ''q'' of
                None \<Rightarrow> noQuery
              | Some query \<Rightarrow>
                  if query = [] then noQuery
                  else (case tryBlock env req query cacheTime of
                          (Inl e, log1) \<Rightarrow>
                            (let (r, log2) = respond env errorResponse
                             in (r, Call_getCacheTime # log1 @ log2))
                        | (Inr r, log1) \<Rightarrow> (Inr r, Call_getCacheTime # log1))))"

text \<open>What the log says.\<close>

definition filtersPassed :: "('s, 'r) call list \<Rightarrow> bool list" where
  "filtersPassed log = concat (map (\<lambda>c. case c of Call_getAvailableApiSites b \<Rightarrow> [b] | _ \<Rightarrow> []) log)"

definition lookupsMade :: "('s, 'r) call list \<Rightarrow> string list" where
  "lookupsMade log = concat (map (\<lambda>c. case c of Call_getUserSettings u \<Rightarrow> [u] | _ \<Rightarrow> []) log)"

definition providersQueried :: "('s, 'r) call list \<Rightarrow> 's list" where
  "providersQueried log = concat (map (\<lambda>c. case c of Call_searchFromApi s q \<Rightarrow> [s] | _ \<Rightarrow> []) log)"

definition cacheTimeCalls :: "('s, 'r) call list \<Rightarrow> nat" where
  "cacheTimeCalls log = length (filter (\<lambda>c. case c of Call_getCacheTime \<Rightarrow> True | _ \<Rightarrow> False) log)"

definition responsesBuilt :: "('s, 'r) call list \<Rightarrow> 'r response list" where
  "responsesBuilt log = concat (map (\<lambda>c. case c of Call_addCorsHeaders r \<Rightarrow> [r] | _ \<Rightarrow> []) log)"

subsection \<open>Example collaborators and requests\<close>

text \<open>
  Four providers, of which \<open>beta\<close> rejects and \<open>adult\<close> is listed only when the filter is
  off; the users \<open>bob\<close> (filter switched off), \<open>eve\<close> (the storage throws), \<open>dan\<close>
  (the string \<open>false\<close> in place of the boolean), \<open>mia\<close> (settings without the field);
  any other user has no settings. The cache time is 7200, and \<open>addCorsHeaders\<close> appends
  one header.
\<close>

definition demo_env :: "(string, string) env" where
  "demo_env =
     \<lparr>getCacheTime = Inr (Finite False 72 2),
      getUserSettings =
        (\<lambda>u. if u = ''bob'' then Inr (Some \<lparr>filter_adult_content = Some (JBool False)\<rparr>)
             else if u = ''eve'' then Inl (Error ''storage unavailable'')
             else if u = ''dan'' then Inr (Some \<lparr>filter_adult_content = Some (JString ''false'')\<rparr>)
             else if u = ''mia'' then Inr (Some \<lparr>filter_adult_content = None\<rparr>)
             else Inr None),
      getAvailableApiSites =
        (\<lambda>filterAdult. Inr (Some (if filterAdult then [''alpha'', ''beta'', ''gamma'']
                                   else [''alpha'', ''beta'', ''gamma'', ''adult'']))),
      searchFromApi =
        (\<lambda>site query. if site = ''beta'' then Inr (Rejected (Error ''timeout''))
                       else Inr (Fulfilled [site @ ''/'' @ query @ ''/1'', site @ ''/'' @ query @ ''/2''])),
      addCorsHeaders =
        (\<lambda>r. Inr (r\<lparr>headers := headers r @ [(''Access-Control-Allow-Origin'', ''*'')]\<rparr>))\<rparr>"

definition demo_request :: "(string \<times> string) list \<Rightarrow> string option \<Rightarrow> request" where
  "demo_request params authorization =
     \<lparr>searchParams = params,
      request_headers = (\<lambda>name. if name = ''Authorization'' then authorization else None)\<rparr>"

section \<open>The text of a number\<close>

text \<open>
  \<open>Number::toString\<close> has five forms for a finite number. They are told apart by the
  letter \<open>e\<close>, the point and a leading 0, and each form gives back the digits and the
  exponent it was made from: the text determines the number (\<open>numberToString_inj\<close>).
\<close>

lemma replicate_numeral: "replicate (numeral k) x = x # replicate (pred_numeral k) x"
  by (simp add: numeral_eq_Suc)

lemmas number_text_simps = finiteToString_def exponentString_def digits.simps digit_def Let_def replicate_numeral

text \<open>The rendering on some numbers, as a JavaScript engine prints them.\<close>

lemma numberToString_examples:
  "numberToString (Finite False 72 2) = ''7200''"
  "numberToString (Zero True) = ''0''"
  "numberToString (Finite False 5 (- 1)) = ''0.5''"
  "numberToString (Finite True 125 (- 2)) = ''-1.25''"
  "numberToString (Finite False 1152921504606847 3) = ''1152921504606847000''"
  "numberToString (Finite False 1 20) = ''100000000000000000000''"
  "numberToString (Finite False 1 21) = ''1e+21''"
  "numberToString (Finite False 12345 17) = ''1.2345e+21''"
  "numberToString (Finite False 1 (- 6)) = ''0.000001''"
  "numberToString (Finite False 1 (- 7)) = ''1e-7''"
  "numberToString (Finite False 123 (- 9)) = ''1.23e-7''"
  "numberToString (Finite False 17976931348623157 292) = ''1.7976931348623157e+308''"
  "numberToString (Finite False 5 (- 324)) = ''5e-324''"
  by (simp_all add: number_text_simps)

subsection \<open>Digits\<close>

lemma lt_10_cases:
  assumes "(d::nat) < 10"
  shows "d = 0 \<or> d = 1 \<or> d = 2 \<or> d = 3 \<or> d = 4 \<or> d = 5 \<or> d = 6 \<or> d = 7 \<or> d = 8 \<or> d = 9"
  using assms by arith

lemma digit_isDigit: "d < 10 \<Longrightarrow> isDigit (digit d)"
  by (drule lt_10_cases) (auto simp: digit_def isDigit_def)

lemma digitValue_digit: "d < 10 \<Longrightarrow> digitValue (digit d) = d"
  by (drule lt_10_cases) (auto simp: digit_def digitValue_def)

lemma digit_zero_iff: "d < 10 \<Longrightarrow> digit d = CHR ''0'' \<longleftrightarrow> d = 0"
  by (drule lt_10_cases) (auto simp: digit_def)

lemma digits_nonempty: "digits n \<noteq> []"
  by (subst digits.simps) simp

lemma digits_isDigit: "c \<in> set (digits n) \<Longrightarrow> isDigit c"
proof (induction n arbitrary: c rule: digits.induct)
  case (1 n)
  show ?case
  proof (cases "n < 10")
    case True
    with "1.prems" show ?thesis by (simp add: digits.simps [of n] digit_isDigit)
  next
    case False
    with "1.prems" have "c \<in> set (digits (n div 10)) \<or> c = digit (n mod 10)"
      by (auto simp: digits.simps [of n])
    with "1.IH" [OF False] show ?thesis by (auto simp: digit_isDigit)
  qed
qed

lemma numeralValue_digits: "numeralValue (digits n) = n"
proof (induction n rule: digits.induct)
  case (1 n)
  show ?case
  proof (cases "n < 10")
    case True
    then show ?thesis by (simp add: digits.simps [of n] numeralValue_def digitValue_digit)
  next
    case False
    from "1.IH" [OF False] have "numeralValue (digits (n div 10)) = n div 10" .
    with False show ?thesis
      by (simp add: digits.simps [of n] numeralValue_def digitValue_digit)
  qed
qed

lemma digits_inj: "digits a = digits b \<Longrightarrow> a = b"
  by (metis numeralValue_digits)

lemma hd_digits: "0 < n \<Longrightarrow> hd (digits n) \<noteq> CHR ''0''"
proof (induction n rule: digits.induct)
  case (1 n)
  show ?case
  proof (cases "n < 10")
    case True
    with "1.prems" show ?thesis by (simp add: digits.simps [of n] digit_zero_iff)
  next
    case False
    then have "0 < n div 10" by simp
    from "1.IH" [OF False this] False show ?thesis
      by (simp add: digits.simps [of n] digits_nonempty)
  qed
qed

lemma last_digits: "n mod 10 \<noteq> 0 \<Longrightarrow> last (digits n) \<noteq> CHR ''0''"
  by (subst digits.simps) (auto simp: digit_zero_iff)


lemma digits_no_mark:
  "CHR ''e'' \<notin> set (digits n)" "CHR ''.'' \<notin> set (digits n)"
  "CHR ''+'' \<notin> set (digits n)" "CHR ''-'' \<notin> set (digits n)"
  using digits_isDigit [of _ n] by (auto simp: isDigit_def)

lemma hd_digits_isDigit: "isDigit (hd (digits n))"
  using digits_isDigit [of "hd (digits n)" n] digits_nonempty [of n] by simp

subsection \<open>Strings that determine their parts\<close>

lemma leading_replicate_eq:
  assumes "replicate a z @ xs = replicate b z @ ys"
    and "xs \<noteq> []" and "hd xs \<noteq> z" and "ys \<noteq> []" and "hd ys \<noteq> z"
  shows "a = b \<and> xs = ys"
  using assms
proof (induction a arbitrary: b)
  case 0
  then show ?case by (cases b; cases xs) auto
next
  case (Suc a)
  then show ?case by (cases b; cases ys) auto
qed

lemma trailing_replicate_eq:
  assumes "xs @ replicate a z = ys @ replicate b z"
    and "xs \<noteq> []" and "last xs \<noteq> z" and "ys \<noteq> []" and "last ys \<noteq> z"
  shows "a = b \<and> xs = ys"
proof -
  from assms(1) have "rev (xs @ replicate a z) = rev (ys @ replicate b z)" by simp
  then have "replicate a z @ rev xs = replicate b z @ rev ys" by simp
  from leading_replicate_eq [OF this] assms(2-5) have "a = b \<and> rev xs = rev ys"
    by (simp add: hd_rev)
  then show ?thesis by simp
qed

lemma split_at_mark:
  assumes "xs @ x # xs' = ys @ x # ys'" and "x \<notin> set xs" and "x \<notin> set ys"
  shows "xs = ys \<and> xs' = ys'"
  using assms
proof (induction xs arbitrary: ys)
  case Nil
  then show ?case by (cases ys) auto
next
  case (Cons a xs)
  then show ?case by (cases ys) auto
qed

subsection \<open>The exponent\<close>

lemma exponentString_no_mark:
  "CHR ''e'' \<notin> set (exponentString x)" "CHR ''.'' \<notin> set (exponentString x)"
  by (simp_all add: exponentString_def digits_no_mark)

lemma exponentString_inj:
  assumes "exponentString x = exponentString y"
  shows "x = y"
proof -
  from assms have sign: "x < 0 \<longleftrightarrow> y < 0" and "digits (nat \<bar>x\<bar>) = digits (nat \<bar>y\<bar>)"
    by (auto simp: exponentString_def split: if_splits)
  then have "nat \<bar>x\<bar> = nat \<bar>y\<bar>" by (simp add: digits_inj)
  with sign show ?thesis by auto
qed

subsection \<open>The five forms of a finite number\<close>

lemma finiteToString_integer:
  assumes "0 \<le> e" and "int (length (digits s)) + e \<le> 21"
  shows "finiteToString s e = digits s @ replicate (nat e) CHR ''0''"
  using assms by (simp add: finiteToString_def Let_def)

lemma finiteToString_fraction:
  assumes "e < 0" and "0 < int (length (digits s)) + e" and "int (length (digits s)) + e \<le> 21"
  shows "finiteToString s e =
           take (nat (int (length (digits s)) + e)) (digits s)
           @ CHR ''.'' # drop (nat (int (length (digits s)) + e)) (digits s)"
  using assms by (simp add: finiteToString_def Let_def)

lemma finiteToString_small:
  assumes "- 6 < int (length (digits s)) + e" and "int (length (digits s)) + e \<le> 0"
  shows "finiteToString s e =
           CHR ''0'' # CHR ''.'' # replicate (nat (- (int (length (digits s)) + e))) CHR ''0''
           @ digits s"
proof -
  have "0 < length (digits s)" using digits_nonempty [of s] by simp
  with assms have "e < 0" by linarith
  with assms show ?thesis by (simp add: finiteToString_def Let_def)
qed

lemma finiteToString_exp1:
  assumes "int (length (digits s)) + e \<le> - 6 \<or> 21 < int (length (digits s)) + e"
    and "length (digits s) = 1"
  shows "finiteToString s e = digits s @ CHR ''e'' # exponentString (int (length (digits s)) + e - 1)"
  using assms by (auto simp: finiteToString_def Let_def)

lemma finiteToString_expk:
  assumes "int (length (digits s)) + e \<le> - 6 \<or> 21 < int (length (digits s)) + e"
    and "length (digits s) \<noteq> 1"
  shows "finiteToString s e =
           take 1 (digits s) @ CHR ''.'' # drop 1 (digits s)
           @ CHR ''e'' # exponentString (int (length (digits s)) + e - 1)"
  using assms by (auto simp: finiteToString_def Let_def)

lemma finiteToString_marks:
  assumes "0 < s"
  shows "(CHR ''e'' \<in> set (finiteToString s e)
           \<longleftrightarrow> int (length (digits s)) + e \<le> - 6 \<or> 21 < int (length (digits s)) + e)
       \<and> (CHR ''.'' \<in> set (finiteToString s e)
           \<longleftrightarrow> (if int (length (digits s)) + e \<le> - 6 \<or> 21 < int (length (digits s)) + e
                then length (digits s) \<noteq> 1 else e < 0))
       \<and> (hd (finiteToString s e) = CHR ''0''
           \<longleftrightarrow> - 6 < int (length (digits s)) + e \<and> int (length (digits s)) + e \<le> 0)
       \<and> isDigit (hd (finiteToString s e))"
proof -
  let ?n = "int (length (digits s)) + e"
  have ne: "digits s \<noteq> []" by (rule digits_nonempty)
  then have len: "0 < length (digits s)" by simp
  have hd0: "hd (digits s) \<noteq> CHR ''0''" using assms by (rule hd_digits)
  have hdd: "isDigit (hd (digits s))" by (rule hd_digits_isDigit)
  have nd: "\<And>m. CHR ''e'' \<notin> set (take m (digits s))" "\<And>m. CHR ''e'' \<notin> set (drop m (digits s))"
    "\<And>m. CHR ''.'' \<notin> set (take m (digits s))" "\<And>m. CHR ''.'' \<notin> set (drop m (digits s))"
    using digits_no_mark [of s] by (auto dest: in_set_takeD in_set_dropD)
  consider (integer) "0 \<le> e" "?n \<le> 21"
    | (fraction) "e < 0" "0 < ?n" "?n \<le> 21"
    | (small) "- 6 < ?n" "?n \<le> 0"
    | (exp1) "?n \<le> - 6 \<or> 21 < ?n" "length (digits s) = 1"
    | (expk) "?n \<le> - 6 \<or> 21 < ?n" "length (digits s) \<noteq> 1"
    using len by linarith
  then show ?thesis
  proof cases
    case integer
    then have "0 < ?n" using len by linarith
    with finiteToString_integer [OF integer] integer ne hd0 hdd digits_no_mark [of s]
    show ?thesis by auto
  next
    case fraction
    then have "take (nat ?n) (digits s) \<noteq> []" using ne by simp
    moreover have "hd (take (nat ?n) (digits s)) = hd (digits s)"
      using fraction by (cases "digits s") (auto simp: take_Cons split: nat.splits)
    ultimately show ?thesis
      using finiteToString_fraction [OF fraction] fraction hd0 hdd nd by auto
  next
    case small
    have "e < 0" using small len by linarith
    with finiteToString_small [OF small] small digits_no_mark [of s]
    show ?thesis by (auto simp: isDigit_def)
  next
    case exp1
    from finiteToString_exp1 [OF this] exp1 ne hd0 hdd digits_no_mark [of s]
      exponentString_no_mark [of "?n - 1"]
    show ?thesis by auto
  next
    case expk
    have "take 1 (digits s) = [hd (digits s)]" using ne by (cases "digits s") auto
    with finiteToString_expk [OF expk] expk hd0 hdd nd exponentString_no_mark [of "?n - 1"]
    show ?thesis by auto
  qed
qed


lemma finiteToString_inj:
  assumes s: "0 < s" "s mod 10 \<noteq> 0" and s': "0 < s'" "s' mod 10 \<noteq> 0"
    and eq: "finiteToString s e = finiteToString s' e'"
  shows "s = s' \<and> e = e'"
proof -
  let ?k = "length (digits s)" and ?k' = "length (digits s')"
  let ?n = "int ?k + e" and ?n' = "int ?k' + e'"
  have len: "0 < ?k" "0 < ?k'" using digits_nonempty by simp_all
  have last: "last (digits s) \<noteq> CHR ''0''" "last (digits s') \<noteq> CHR ''0''"
    using s(2) s'(2) by (simp_all add: last_digits)
  have hd: "hd (digits s) \<noteq> CHR ''0''" "hd (digits s') \<noteq> CHR ''0''"
    using s(1) s'(1) by (simp_all add: hd_digits)
  have nd: "\<And>m. CHR ''e'' \<notin> set (drop m (digits s))" "\<And>m. CHR ''e'' \<notin> set (drop m (digits s'))"
    "\<And>m. CHR ''.'' \<notin> set (take m (digits s))" "\<And>m. CHR ''.'' \<notin> set (take m (digits s'))"
    using digits_no_mark [of s] digits_no_mark [of s'] by (auto dest: in_set_takeD in_set_dropD)
  note m = finiteToString_marks [OF s(1), of e, unfolded eq]
    and m' = finiteToString_marks [OF s'(1), of e']
  have E: "(?n \<le> - 6 \<or> 21 < ?n) \<longleftrightarrow> (?n' \<le> - 6 \<or> 21 < ?n')"
    using m m' by blast
  have Z: "(- 6 < ?n \<and> ?n \<le> 0) \<longleftrightarrow> (- 6 < ?n' \<and> ?n' \<le> 0)"
    using m m' by blast
  have "(if ?n \<le> - 6 \<or> 21 < ?n then ?k \<noteq> 1 else e < 0)
          \<longleftrightarrow> CHR ''.'' \<in> set (finiteToString s' e')"
    using m by blast
  also have "\<dots> \<longleftrightarrow> (if ?n' \<le> - 6 \<or> 21 < ?n' then ?k' \<noteq> 1 else e' < 0)"
    using m' by blast
  finally have D: "(if ?n \<le> - 6 \<or> 21 < ?n then ?k \<noteq> 1 else e < 0)
              \<longleftrightarrow> (if ?n' \<le> - 6 \<or> 21 < ?n' then ?k' \<noteq> 1 else e' < 0)" .
  consider (integer) "0 \<le> e" "?n \<le> 21"
    | (fraction) "e < 0" "0 < ?n" "?n \<le> 21"
    | (small) "- 6 < ?n" "?n \<le> 0"
    | (exp1) "?n \<le> - 6 \<or> 21 < ?n" "?k = 1"
    | (expk) "?n \<le> - 6 \<or> 21 < ?n" "?k \<noteq> 1"
    using len by linarith
  then show ?thesis
  proof cases
    case integer
    then have "\<not> (?n \<le> - 6 \<or> 21 < ?n)" using len by linarith
    with E D integer have i': "0 \<le> e'" "?n' \<le> 21" by (auto split: if_splits)
    from eq finiteToString_integer [OF integer] finiteToString_integer [OF i']
    have "digits s @ replicate (nat e) CHR ''0'' = digits s' @ replicate (nat e') CHR ''0''"
      by simp
    then have "nat e = nat e' \<and> digits s = digits s'"
      by (rule trailing_replicate_eq) (simp_all add: digits_nonempty last)
    then have "nat e = nat e'" and "s = s'" by (blast dest: digits_inj)+
    with integer i' show ?thesis by simp
  next
    case fraction
    then have "\<not> (?n \<le> - 6 \<or> 21 < ?n)" by linarith
    with E D Z fraction have f': "e' < 0" "0 < ?n'" "?n' \<le> 21"
      by (auto split: if_splits)
    from eq finiteToString_fraction [OF fraction] finiteToString_fraction [OF f']
    have "take (nat ?n) (digits s) @ CHR ''.'' # drop (nat ?n) (digits s)
          = take (nat ?n') (digits s') @ CHR ''.'' # drop (nat ?n') (digits s')" by simp
    from split_at_mark [OF this nd(3,4)]
    have t: "take (nat ?n) (digits s) = take (nat ?n') (digits s')"
      and d: "drop (nat ?n) (digits s) = drop (nat ?n') (digits s')"
      by blast+
    have "digits s = take (nat ?n) (digits s) @ drop (nat ?n) (digits s)" by simp
    also have "\<dots> = take (nat ?n') (digits s') @ drop (nat ?n') (digits s')"
      by (simp only: t d)
    finally have ds: "digits s = digits s'" by simp
    from t have "length (take (nat ?n) (digits s)) = length (take (nat ?n') (digits s'))"
      by simp
    with fraction f' have "nat ?n = nat ?n'" by simp
    with ds fraction f' show ?thesis by (auto dest: digits_inj)
  next
    case small
    with Z have s2: "- 6 < ?n'" "?n' \<le> 0" by simp_all
    from eq finiteToString_small [OF small] finiteToString_small [OF s2]
    have "replicate (nat (- ?n)) CHR ''0'' @ digits s
          = replicate (nat (- ?n')) CHR ''0'' @ digits s'" by simp
    then have "nat (- ?n) = nat (- ?n') \<and> digits s = digits s'"
      by (rule leading_replicate_eq) (simp_all add: digits_nonempty hd)
    then have "nat (- ?n) = nat (- ?n')" and "s = s'" by (blast dest: digits_inj)+
    with small s2 show ?thesis by simp
  next
    case exp1
    with E D have e': "?n' \<le> - 6 \<or> 21 < ?n'" "?k' = 1" by (auto split: if_splits)
    from eq finiteToString_exp1 [OF exp1] finiteToString_exp1 [OF e']
    have "digits s @ CHR ''e'' # exponentString (?n - 1)
          = digits s' @ CHR ''e'' # exponentString (?n' - 1)" by simp
    from split_at_mark [OF this digits_no_mark(1) digits_no_mark(1)]
    have "digits s = digits s'" "exponentString (?n - 1) = exponentString (?n' - 1)"
      by blast+
    then have "s = s'" "?n - 1 = ?n' - 1" by (auto dest: digits_inj exponentString_inj)
    then show ?thesis by simp
  next
    case expk
    with E D have e': "?n' \<le> - 6 \<or> 21 < ?n'" "?k' \<noteq> 1" by (auto split: if_splits)
    from eq finiteToString_expk [OF expk] finiteToString_expk [OF e']
    have "take 1 (digits s) @ CHR ''.'' # drop 1 (digits s) @ CHR ''e'' # exponentString (?n - 1)
          = take 1 (digits s') @ CHR ''.'' # drop 1 (digits s') @ CHR ''e'' # exponentString (?n' - 1)"
      by simp
    from split_at_mark [OF this nd(3,4)]
    have t: "take 1 (digits s) = take 1 (digits s')"
      and r: "drop 1 (digits s) @ CHR ''e'' # exponentString (?n - 1)
              = drop 1 (digits s') @ CHR ''e'' # exponentString (?n' - 1)"
      by blast+
    from split_at_mark [OF r nd(1,2)]
    have d: "drop 1 (digits s) = drop 1 (digits s')"
      and x: "exponentString (?n - 1) = exponentString (?n' - 1)"
      by blast+
    have "digits s = take 1 (digits s) @ drop 1 (digits s)" by simp
    also have "\<dots> = take 1 (digits s') @ drop 1 (digits s')" by (simp only: t d)
    finally have "digits s = digits s'" by simp
    with x have "s = s'" "?n - 1 = ?n' - 1" by (auto dest: digits_inj exponentString_inj)
    then show ?thesis by simp
  qed
qed

lemma finiteToString_not_special:
  assumes "0 < s"
  shows "finiteToString s e \<noteq> ''NaN''" "finiteToString s e \<noteq> ''Infinity''"
    "finiteToString s e \<noteq> ''-Infinity''" "finiteToString s e \<noteq> CHR ''-'' # x"
    "finiteToString s e \<noteq> ''0''"
proof -
  from finiteToString_marks [OF assms, of e]
  have d: "isDigit (hd (finiteToString s e))"
    and z: "hd (finiteToString s e) = CHR ''0''
             \<longleftrightarrow> - 6 < int (length (digits s)) + e \<and> int (length (digits s)) + e \<le> 0"
    by blast+
  show "finiteToString s e \<noteq> ''NaN''"
  proof
    assume "finiteToString s e = ''NaN''"
    with d show False by (simp add: isDigit_def)
  qed
  show "finiteToString s e \<noteq> ''Infinity''"
  proof
    assume "finiteToString s e = ''Infinity''"
    with d show False by (simp add: isDigit_def)
  qed
  show "finiteToString s e \<noteq> ''-Infinity''"
  proof
    assume "finiteToString s e = ''-Infinity''"
    with d show False by (simp add: isDigit_def)
  qed
  show "finiteToString s e \<noteq> CHR ''-'' # x"
  proof
    assume "finiteToString s e = CHR ''-'' # x"
    with d show False by (simp add: isDigit_def)
  qed
  show "finiteToString s e \<noteq> ''0''"
  proof
    assume a: "finiteToString s e = ''0''"
    with z have "- 6 < int (length (digits s)) + e" "int (length (digits s)) + e \<le> 0"
      by simp_all
    from finiteToString_small [OF this] a show False by simp
  qed
qed

lemma numberToString_Finite_not_special:
  assumes "0 < s"
  shows "numberToString (Finite negative s e) \<noteq> ''NaN''"
    "numberToString (Finite negative s e) \<noteq> ''Infinity''"
    "numberToString (Finite negative s e) \<noteq> ''-Infinity''"
    "numberToString (Finite negative s e) \<noteq> ''0''"
  by (cases negative; simp add: finiteToString_not_special [OF assms])+

lemma numberToString_inj:
  assumes "wellFormed a" and "wellFormed b" and "numberToString a = numberToString b"
  shows "a = b \<or> (\<exists>x y. a = Zero x \<and> b = Zero y)"
proof (cases "(\<exists>neg s e. a = Finite neg s e) \<or> (\<exists>neg s e. b = Finite neg s e)")
  case False
  with assms(3) show ?thesis
    by (cases a; cases b) (auto split: if_splits)
next
  case True
  show ?thesis
  proof (cases "(\<exists>neg s e. a = Finite neg s e) \<and> (\<exists>neg s e. b = Finite neg s e)")
    case True
    then obtain neg s e neg' s' e' where a: "a = Finite neg s e" and b: "b = Finite neg' s' e'"
      by blast
    from a b assms(1,2) have s: "0 < s" "s mod 10 \<noteq> 0" and s': "0 < s'" "s' mod 10 \<noteq> 0"
      by simp_all
    have "neg = neg' \<and> finiteToString s e = finiteToString s' e'"
    proof (cases neg; cases neg')
      assume "neg" "\<not> neg'"
      with a b assms(3) have "finiteToString s' e' = CHR ''-'' # finiteToString s e" by simp
      with finiteToString_not_special(4) [OF s'(1)] show ?thesis by blast
    next
      assume "\<not> neg" "neg'"
      with a b assms(3) have "finiteToString s e = CHR ''-'' # finiteToString s' e'" by simp
      with finiteToString_not_special(4) [OF s(1)] show ?thesis by blast
    qed (use a b assms(3) in simp_all)
    then have "neg = neg'" and "finiteToString s e = finiteToString s' e'" by blast+
    from this(1) finiteToString_inj [OF s s' this(2)] a b show ?thesis by blast
  next
    case False
    with \<open>(\<exists>neg s e. a = Finite neg s e) \<or> (\<exists>neg s e. b = Finite neg s e)\<close>
    consider (left) neg s e where "a = Finite neg s e" "\<nexists>neg s e. b = Finite neg s e"
      | (right) neg s e where "b = Finite neg s e" "\<nexists>neg s e. a = Finite neg s e"
      by blast
    then show ?thesis
    proof cases
      case left
      with assms(1) have "0 < s" by simp
      from numberToString_Finite_not_special [OF this, of neg e] left assms(3)
      show ?thesis by (cases b) (auto split: if_splits)
    next
      case right
      with assms(2) have "0 < s" by simp
      from numberToString_Finite_not_special [OF this, of neg e] right assms(3)
      show ?thesis by (cases a) (auto split: if_splits)
    qed
  qed
qed

section \<open>Properties of the model\<close>

subsection \<open>Reading the log\<close>

lemma filtersPassed_simps [simp]:
  "filtersPassed [] = []"
  "filtersPassed (Call_getCacheTime # cs) = filtersPassed cs"
  "filtersPassed (Call_getUserSettings u # cs) = filtersPassed cs"
  "filtersPassed (Call_getAvailableApiSites b # cs) = b # filtersPassed cs"
  "filtersPassed (Call_searchFromApi s q # cs) = filtersPassed cs"
  "filtersPassed (Call_addCorsHeaders r # cs) = filtersPassed cs"
  "filtersPassed (xs @ ys) = filtersPassed xs @ filtersPassed ys"
  by (simp_all add: filtersPassed_def)

lemma lookupsMade_simps [simp]:
  "lookupsMade [] = []"
  "lookupsMade (Call_getCacheTime # cs) = lookupsMade cs"
  "lookupsMade (Call_getUserSettings u # cs) = u # lookupsMade cs"
  "lookupsMade (Call_getAvailableApiSites b # cs) = lookupsMade cs"
  "lookupsMade (Call_searchFromApi s q # cs) = lookupsMade cs"
  "lookupsMade (Call_addCorsHeaders r # cs) = lookupsMade cs"
  "lookupsMade (xs @ ys) = lookupsMade xs @ lookupsMade ys"
  by (simp_all add: lookupsMade_def)

lemma providersQueried_simps [simp]:
  "providersQueried [] = []"
  "providersQueried (Call_getCacheTime # cs) = providersQueried cs"
  "providersQueried (Call_getUserSettings u # cs) = providersQueried cs"
  "providersQueried (Call_getAvailableApiSites b # cs) = providersQueried cs"
  "providersQueried (Call_searchFromApi s q # cs) = s # providersQueried cs"
  "providersQueried (Call_addCorsHeaders r # cs) = providersQueried cs"
  "providersQueried (xs @ ys) = providersQueried xs @ providersQueried ys"
  by (simp_all add: providersQueried_def)

lemma responsesBuilt_simps [simp]:
  "responsesBuilt [] = []"
  "responsesBuilt (Call_getCacheTime # cs) = responsesBuilt cs"
  "responsesBuilt (Call_getUserSettings u # cs) = responsesBuilt cs"
  "responsesBuilt (Call_getAvailableApiSites b # cs) = responsesBuilt cs"
  "responsesBuilt (Call_searchFromApi s q # cs) = responsesBuilt cs"
  "responsesBuilt (Call_addCorsHeaders r # cs) = r # responsesBuilt cs"
  "responsesBuilt (xs @ ys) = responsesBuilt xs @ responsesBuilt ys"
  by (simp_all add: responsesBuilt_def)

lemma cacheTimeCalls_simps [simp]:
  "cacheTimeCalls [] = 0"
  "cacheTimeCalls (Call_getCacheTime # cs) = Suc (cacheTimeCalls cs)"
  "cacheTimeCalls (Call_getUserSettings u # cs) = cacheTimeCalls cs"
  "cacheTimeCalls (Call_getAvailableApiSites b # cs) = cacheTimeCalls cs"
  "cacheTimeCalls (Call_searchFromApi s q # cs) = cacheTimeCalls cs"
  "cacheTimeCalls (Call_addCorsHeaders r # cs) = cacheTimeCalls cs"
  "cacheTimeCalls (xs @ ys) = cacheTimeCalls xs + cacheTimeCalls ys"
  by (simp_all add: cacheTimeCalls_def)

subsection \<open>The searches\<close>

lemma searchPromises_log:
  "filtersPassed (snd (searchPromises env sites q)) = []"
  "lookupsMade (snd (searchPromises env sites q)) = []"
  "responsesBuilt (snd (searchPromises env sites q)) = []"
  "cacheTimeCalls (snd (searchPromises env sites q)) = 0"
  by (induction sites; auto split: sum.splits prod.splits)+

lemma searchPromises_logD:
  assumes "searchPromises env sites q = (out, log)"
  shows "filtersPassed log = [] \<and> lookupsMade log = [] \<and> responsesBuilt log = []
         \<and> cacheTimeCalls log = 0"
  using searchPromises_log [of env sites q] assms by simp

lemma searchPromises_returns:
  assumes "\<forall>s\<in>set sites. \<exists>p. searchFromApi env s q = Inr p"
  shows "\<exists>ps. searchPromises env sites q = (Inr ps, map (\<lambda>s. Call_searchFromApi s q) sites)
              \<and> map Inr ps = map (\<lambda>s. searchFromApi env s q) sites"
  using assms by (induction sites) auto

lemma searchPromises_throws:
  assumes "s \<in> set sites" and "searchFromApi env s q = Inl e"
  shows "\<exists>e'. fst (searchPromises env sites q) = Inl e'"
  using assms by (induction sites) (auto split: sum.splits prod.splits)

lemma searchPromises_Inl:
  assumes "fst (searchPromises env sites q) = Inl e"
  shows "\<exists>s\<in>set sites. searchFromApi env s q = Inl e"
  using assms by (induction sites) (auto split: sum.splits prod.splits)

lemma searchResults_of_sites:
  assumes "map Inr ps = map (\<lambda>s. searchFromApi env s q) sites"
  shows "searchResults ps =
         concat (map (\<lambda>s. case searchFromApi env s q of Inr (Fulfilled v) \<Rightarrow> v | _ \<Rightarrow> []) sites)"
  using assms
proof (induction sites arbitrary: ps)
  case Nil
  then show ?case by (simp add: searchResults_def flatMap_def)
next
  case (Cons s sites)
  then obtain p ps' where ps: "ps = p # ps'" by (cases ps) auto
  with Cons.prems have p: "searchFromApi env s q = Inr p"
    and rest: "map Inr ps' = map (\<lambda>s. searchFromApi env s q) sites" by auto
  have "searchResults ps' =
        concat (map (\<lambda>s. case searchFromApi env s q of Inr (Fulfilled v) \<Rightarrow> v | _ \<Rightarrow> []) sites)"
    using Cons.IH [OF rest] .
  then show ?case using p ps
    by (cases p) (simp_all add: searchResults_def flatMap_def is_fulfilled_def)
qed

subsection \<open>The body of the try\<close>

lemma shouldFilterAdult_log:
  "snd (shouldFilterAdult env userName) =
     (case userName of None \<Rightarrow> [] | Some u \<Rightarrow> if u = [] then [] else [Call_getUserSettings u])"
  by (simp add: shouldFilterAdult_def split: option.splits sum.splits)

lemma shouldFilterAdult_log_simps [simp]:
  "filtersPassed (snd (shouldFilterAdult env userName)) = []"
  "responsesBuilt (snd (shouldFilterAdult env userName)) = []"
  "providersQueried (snd (shouldFilterAdult env userName)) = []"
  "cacheTimeCalls (snd (shouldFilterAdult env userName)) = 0"
  by (simp_all add: shouldFilterAdult_log split: option.splits)

lemma tryBlock_filtersPassed:
  "filtersPassed (snd (tryBlock env req q t)) = [finalShouldFilter env req]"
  by (auto simp: tryBlock_def respond_def Let_def dest: searchPromises_logD
           split: sum.splits option.splits prod.splits)

lemma tryBlock_lookupsMade:
  "lookupsMade (snd (tryBlock env req q t)) =
     lookupsMade (snd (shouldFilterAdult env (resolveUserName req)))"
  by (auto simp: tryBlock_def respond_def Let_def dest: searchPromises_logD
           split: sum.splits option.splits prod.splits)

lemma tryBlock_cacheTimeCalls: "cacheTimeCalls (snd (tryBlock env req q t)) = 0"
  by (auto simp: tryBlock_def respond_def Let_def dest: searchPromises_logD
           split: sum.splits option.splits prod.splits)

lemma tryBlock_responsesBuilt:
  assumes "r \<in> set (responsesBuilt (snd (tryBlock env req q t)))"
  shows "status r = 200 \<and> headers r = cacheHeaders t \<and> adult_results (body r) = []
         \<and> error (body r) = None"
  using assms
  by (auto simp: tryBlock_def respond_def Let_def emptyResponse_def NextResponse_json_def
           dest: searchPromises_logD
           split: sum.splits option.splits prod.splits if_splits)

lemma tryBlock_returns:
  assumes "fst (tryBlock env req q t) = Inr r'"
  shows "\<exists>r. responsesBuilt (snd (tryBlock env req q t)) = [r] \<and> addCorsHeaders env r = Inr r'"
  using assms
  by (auto simp: tryBlock_def respond_def Let_def dest: searchPromises_logD
           split: sum.splits option.splits prod.splits if_splits)

lemma tryBlock_no_sites:
  assumes "getAvailableApiSites env (finalShouldFilter env req) = Inr None
           \<or> getAvailableApiSites env (finalShouldFilter env req) = Inr (Some [])"
  shows "tryBlock env req q t =
           (addCorsHeaders env (emptyResponse t),
            snd (shouldFilterAdult env (resolveUserName req))
              @ [Call_getAvailableApiSites (finalShouldFilter env req),
                 Call_addCorsHeaders (emptyResponse t)])"
  using assms by (auto simp: tryBlock_def respond_def Let_def)

lemma tryBlock_searched:
  assumes "getAvailableApiSites env (finalShouldFilter env req) = Inr (Some sites)"
    and "\<forall>s\<in>set sites. \<exists>p. searchFromApi env s q = Inr p"
  shows "\<exists>r. tryBlock env req q t =
           (addCorsHeaders env r,
            snd (shouldFilterAdult env (resolveUserName req))
              @ [Call_getAvailableApiSites (finalShouldFilter env req)]
              @ map (\<lambda>s. Call_searchFromApi s q) sites
              @ [Call_addCorsHeaders r])
         \<and> status r = 200
         \<and> body r = \<lparr>regular_results =
                        concat (map (\<lambda>s. case searchFromApi env s q of
                                            Inr (Fulfilled v) \<Rightarrow> v | _ \<Rightarrow> []) sites),
                      adult_results = [], error = None\<rparr>
         \<and> headers r = cacheHeaders t"
proof (cases sites)
  case Nil
  then show ?thesis using assms(1)
    by (simp add: tryBlock_no_sites emptyResponse_def NextResponse_json_def)
next
  case (Cons s ss)
  from searchPromises_returns [OF assms(2)] obtain ps
    where ps: "searchPromises env sites q = (Inr ps, map (\<lambda>s. Call_searchFromApi s q) sites)"
      and eq: "map Inr ps = map (\<lambda>s. searchFromApi env s q) sites" by blast
  have "sites \<noteq> []" using Cons by simp
  then show ?thesis using assms(1) ps searchResults_of_sites [OF eq]
    by (simp add: tryBlock_def respond_def Let_def NextResponse_json_def)
qed

lemma tryBlock_throws:
  assumes "(\<exists>e. getAvailableApiSites env (finalShouldFilter env req) = Inl e)
         \<or> (\<exists>sites s e. getAvailableApiSites env (finalShouldFilter env req) = Inr (Some sites)
                \<and> s \<in> set sites \<and> searchFromApi env s q = Inl e)
         \<or> (\<exists>r e. r \<in> set (responsesBuilt (snd (tryBlock env req q t)))
                \<and> addCorsHeaders env r = Inl e)"
  shows "\<exists>e. fst (tryBlock env req q t) = Inl e"
  using assms
proof (elim disjE exE conjE)
  fix e assume "getAvailableApiSites env (finalShouldFilter env req) = Inl e"
  then show ?thesis by (simp add: tryBlock_def Let_def)
next
  fix sites s e
  assume a: "getAvailableApiSites env (finalShouldFilter env req) = Inr (Some sites)"
    "s \<in> set sites" "searchFromApi env s q = Inl e"
  from searchPromises_throws [OF a(2,3)] obtain e' where
    "fst (searchPromises env sites q) = Inl e'" by blast
  moreover have "sites \<noteq> []" using a(2) by auto
  ultimately show ?thesis using a(1)
    by (cases "searchPromises env sites q") (simp add: tryBlock_def Let_def)
next
  fix r e
  assume a: "r \<in> set (responsesBuilt (snd (tryBlock env req q t)))" "addCorsHeaders env r = Inl e"
  show ?thesis
  proof (cases "fst (tryBlock env req q t)")
    case (Inl e')
    then show ?thesis by blast
  next
    case (Inr r')
    from tryBlock_returns [OF Inr] a show ?thesis by auto
  qed
qed

text \<open>Nothing else is thrown out of the \<open>try\<close>: a throw of the settings lookup is not.\<close>

lemma tryBlock_throws_only:
  assumes "fst (tryBlock env req q t) = Inl e"
  shows "getAvailableApiSites env (finalShouldFilter env req) = Inl e
       \<or> (\<exists>sites s. getAvailableApiSites env (finalShouldFilter env req) = Inr (Some sites)
              \<and> s \<in> set sites \<and> searchFromApi env s q = Inl e)
       \<or> (\<exists>r. r \<in> set (responsesBuilt (snd (tryBlock env req q t)))
              \<and> addCorsHeaders env r = Inl e)"
proof (cases "getAvailableApiSites env (finalShouldFilter env req)")
  case (Inl e')
  with assms show ?thesis by (simp add: tryBlock_def Let_def)
next
  case (Inr availableSites)
  show ?thesis
  proof (cases "availableSites = None \<or> availableSites = Some []")
    case True
    with Inr have "getAvailableApiSites env (finalShouldFilter env req) = Inr None
           \<or> getAvailableApiSites env (finalShouldFilter env req) = Inr (Some [])" by auto
    from tryBlock_no_sites [OF this, of q t] assms show ?thesis by simp
  next
    case False
    then obtain sites where sites: "availableSites = Some sites" "sites \<noteq> []" by auto
    obtain out log2 where sp: "searchPromises env sites q = (out, log2)"
      by (cases "searchPromises env sites q")
    show ?thesis
    proof (cases out)
      case (Inl e')
      with sp sites Inr assms have "e' = e" by (simp add: tryBlock_def Let_def)
      with Inl sp searchPromises_Inl [of env sites q e] sites Inr show ?thesis by auto
    next
      case (Inr results)
      with sp sites \<open>getAvailableApiSites env (finalShouldFilter env req) = Inr availableSites\<close> assms
      show ?thesis
        using searchPromises_logD [OF sp]
        by (auto simp: tryBlock_def Let_def respond_def)
    qed
  qed
qed

subsection \<open>The handler as a whole\<close>

lemma GET_query:
  assumes "searchParams_get req ''q'' = Some q" and "q \<noteq> []" and "getCacheTime env = Inr t"
  shows "GET env req =
           (case tryBlock env req q t of
              (Inl e, log1) \<Rightarrow>
                (addCorsHeaders env errorResponse,
                 Call_getCacheTime # log1 @ [Call_addCorsHeaders errorResponse])
            | (Inr r, log1) \<Rightarrow> (Inr r, Call_getCacheTime # log1))"
  using assms by (simp add: GET_def respond_def Let_def split: prod.splits sum.splits)

lemma GET_no_query:
  assumes "\<not> truthy (searchParams_get req ''q'')" and "getCacheTime env = Inr t"
  shows "GET env req =
           (addCorsHeaders env (emptyResponse t),
            [Call_getCacheTime, Call_addCorsHeaders (emptyResponse t)])"
  using assms by (cases "searchParams_get req ''q''") (simp_all add: GET_def respond_def Let_def)

lemma GET_cases:
  obtains (cacheTime_throws) e where "getCacheTime env = Inl e"
      and "GET env req = (Inl e, [Call_getCacheTime])"
  | (no_query) t where "getCacheTime env = Inr t" and "\<not> truthy (searchParams_get req ''q'')"
      and "GET env req = (addCorsHeaders env (emptyResponse t),
                          [Call_getCacheTime, Call_addCorsHeaders (emptyResponse t)])"
  | (caught) t q e log1 where "getCacheTime env = Inr t" and "searchParams_get req ''q'' = Some q"
      and "q \<noteq> []" and "tryBlock env req q t = (Inl e, log1)"
      and "GET env req = (addCorsHeaders env errorResponse,
                          Call_getCacheTime # log1 @ [Call_addCorsHeaders errorResponse])"
  | (returned) t q r log1 where "getCacheTime env = Inr t" and "searchParams_get req ''q'' = Some q"
      and "q \<noteq> []" and "tryBlock env req q t = (Inr r, log1)"
      and "GET env req = (Inr r, Call_getCacheTime # log1)"
proof (cases "getCacheTime env")
  case (Inl e)
  then have "GET env req = (Inl e, [Call_getCacheTime])" by (simp add: GET_def)
  with Inl show ?thesis by (rule cacheTime_throws)
next
  case (Inr t)
  show ?thesis
  proof (cases "truthy (searchParams_get req ''q'')")
    case False
    from Inr False GET_no_query [OF False Inr] show ?thesis by (rule no_query)
  next
    case True
    then obtain q where q: "searchParams_get req ''q'' = Some q" "q \<noteq> []"
      by (cases "searchParams_get req ''q''") auto
    obtain out log1 where tb: "tryBlock env req q t = (out, log1)"
      by (cases "tryBlock env req q t")
    show ?thesis
    proof (cases out)
      case (Inl e)
      with tb GET_query [OF q Inr] show ?thesis using Inr q by (intro caught) simp_all
    next
      case (Inr r)
      with tb GET_query [OF q \<open>getCacheTime env = Inr t\<close>] show ?thesis
        using \<open>getCacheTime env = Inr t\<close> q by (intro returned) simp_all
    qed
  qed
qed

text \<open>The equations that evaluate the handler on the examples.\<close>

lemma cacheTime_text: "finiteToString 72 2 = ''7200''"
  by (simp add: number_text_simps)

lemmas demo_defs = demo_env_def demo_request_def GET_def tryBlock_def respond_def emptyResponse_def
  errorResponse_def NextResponse_json_def cacheHeaders_def cacheTime_text
  searchParams_get_def headers_get_def resolveUserName_def shouldFilterAdult_def
  optional_filter_adult_content_def includeAdult_def finalShouldFilter_def searchResults_def
  flatMap_def is_fulfilled_def startsWith_def substring_def searchFailed_def

lemma startsWith_iff: "startsWith s p \<longleftrightarrow> (\<exists>rest. s = p @ rest)"
proof
  assume "startsWith s p"
  then have "s = p @ drop (length p) s"
    unfolding startsWith_def by (metis append_take_drop_id)
  then show "\<exists>rest. s = p @ rest" ..
next
  assume "\<exists>rest. s = p @ rest"
  then show "startsWith s p" by (auto simp: startsWith_def)
qed

lemma resolveUserName_param:
  assumes "searchParams_get req ''user'' = Some u" and "u \<noteq> []"
  shows "resolveUserName req = Some u"
  using assms by (simp add: resolveUserName_def)

lemma resolveUserName_bearer:
  assumes "\<not> truthy (searchParams_get req ''user'')"
    and "headers_get req ''Authorization'' = Some (''Bearer '' @ token)"
  shows "resolveUserName req = Some token"
  using assms by (simp add: resolveUserName_def startsWith_def substring_def)

lemma resolveUserName_none:
  assumes "\<not> truthy (searchParams_get req ''user'')"
    and "\<forall>token. headers_get req ''Authorization'' \<noteq> Some (''Bearer '' @ token)"
  shows "resolveUserName req = None"
proof (cases "headers_get req ''Authorization''")
  case None
  with assms(1) show ?thesis by (simp add: resolveUserName_def)
next
  case (Some h)
  with assms(2) have "\<not> startsWith h ''Bearer ''" by (auto simp: startsWith_iff)
  with Some assms(1) show ?thesis by (simp add: resolveUserName_def)
qed

lemma GET_filtersPassed:
  assumes "searchParams_get req ''q'' = Some q" and "q \<noteq> []" and "getCacheTime env = Inr t"
  shows "filtersPassed (snd (GET env req)) = [finalShouldFilter env req]"
  using tryBlock_filtersPassed [of env req q t]
  by (cases "tryBlock env req q t") (auto simp: GET_query [OF assms] split: sum.splits)

lemma GET_lookupsMade:
  "lookupsMade (snd (GET env req)) = [] \<or>
   lookupsMade (snd (GET env req)) = lookupsMade (snd (shouldFilterAdult env (resolveUserName req)))"
proof (cases env req rule: GET_cases)
  case (caught t q e log1)
  with tryBlock_lookupsMade [of env req q t] show ?thesis by simp
next
  case (returned t q r log1)
  with tryBlock_lookupsMade [of env req q t] show ?thesis by simp
qed simp_all

lemma GET_lookupsMade_query:
  assumes "searchParams_get req ''q'' = Some q" and "q \<noteq> []" and "getCacheTime env = Inr t"
  shows "lookupsMade (snd (GET env req)) = lookupsMade (snd (shouldFilterAdult env (resolveUserName req)))"
  using tryBlock_lookupsMade [of env req q t]
  by (cases "tryBlock env req q t") (auto simp: GET_query [OF assms] split: sum.splits)

lemma GET_searched:
  assumes "searchParams_get req ''q'' = Some q" and "q \<noteq> []" and "getCacheTime env = Inr t"
    and "getAvailableApiSites env (finalShouldFilter env req) = Inr (Some sites)"
    and "\<forall>s\<in>set sites. \<exists>p. searchFromApi env s q = Inr p"
    and "\<forall>r. status r = 200 \<longrightarrow> (\<exists>r'. addCorsHeaders env r = Inr r')"
  shows "\<exists>r r'. fst (GET env req) = Inr r' \<and> addCorsHeaders env r = Inr r'
           \<and> responsesBuilt (snd (GET env req)) = [r]
           \<and> providersQueried (snd (GET env req)) = sites
           \<and> status r = 200
           \<and> regular_results (body r) =
               concat (map (\<lambda>s. case searchFromApi env s q of
                                   Inr (Fulfilled v) \<Rightarrow> v | _ \<Rightarrow> []) sites)"
proof -
  from tryBlock_searched [OF assms(4,5), of t] obtain r where
    tb: "tryBlock env req q t =
           (addCorsHeaders env r,
            snd (shouldFilterAdult env (resolveUserName req))
              @ [Call_getAvailableApiSites (finalShouldFilter env req)]
              @ map (\<lambda>s. Call_searchFromApi s q) sites
              @ [Call_addCorsHeaders r])"
    and st: "status r = 200"
    and bd: "body r = \<lparr>regular_results =
                        concat (map (\<lambda>s. case searchFromApi env s q of
                                            Inr (Fulfilled v) \<Rightarrow> v | _ \<Rightarrow> []) sites),
                      adult_results = [], error = None\<rparr>"
    by blast
  from assms(6) st obtain r' where r': "addCorsHeaders env r = Inr r'" by blast
  have pq: "providersQueried (map (\<lambda>s. Call_searchFromApi s q) sites) = sites"
    "responsesBuilt (map (\<lambda>s. Call_searchFromApi s q) sites) = []"
    by (induction sites) simp_all
  have "fst (GET env req) = Inr r'" "responsesBuilt (snd (GET env req)) = [r]"
    "providersQueried (snd (GET env req)) = sites"
    using tb r' pq by (simp_all add: GET_query [OF assms(1-3)])
  with r' st bd show ?thesis by auto
qed

lemma GET_responsesBuilt:
  assumes "r \<in> set (responsesBuilt (snd (GET env req)))"
  shows "\<exists>t. getCacheTime env = Inr t \<and>
           (status r = 200 \<and> headers r = cacheHeaders t \<and> adult_results (body r) = []
            \<or> r = errorResponse)"
proof (cases env req rule: GET_cases)
  case (cacheTime_throws e)
  with assms show ?thesis by simp
next
  case (no_query t)
  with assms show ?thesis by (simp add: emptyResponse_def NextResponse_json_def)
next
  case (caught t q e log1)
  with assms tryBlock_responsesBuilt [of r env req q t] show ?thesis by auto
next
  case (returned t q r' log1)
  with assms tryBlock_responsesBuilt [of r env req q t] show ?thesis by auto
qed

lemma GET_returns_last:
  assumes "getCacheTime env = Inr t"
  shows "responsesBuilt (snd (GET env req)) \<noteq> [] \<and>
         fst (GET env req) = addCorsHeaders env (last (responsesBuilt (snd (GET env req))))"
proof (cases env req rule: GET_cases)
  case (cacheTime_throws e)
  with assms show ?thesis by simp
next
  case (no_query t)
  then show ?thesis by simp
next
  case (caught t q e log1)
  then show ?thesis by simp
next
  case (returned t q r' log1)
  with tryBlock_returns [of env req q t r'] show ?thesis by auto
qed

lemma GET_cacheTimeCalls: "cacheTimeCalls (snd (GET env req)) = 1"
proof (cases env req rule: GET_cases)
  case (caught t q e log1)
  with tryBlock_cacheTimeCalls [of env req q t] show ?thesis by simp
next
  case (returned t q r log1)
  with tryBlock_cacheTimeCalls [of env req q t] show ?thesis by simp
qed simp_all

section \<open>The claims\<close>

subsection \<open>The filter policy\<close>

text \<open>
  C1. A request with a non-empty query and a resolved user name, whose settings lookup
  returns, makes exactly one call of \<open>getAvailableApiSites\<close>, and the filter it passes is
  \<open>false\<close> if and only if the stored settings have \<open>filter_adult_content\<close> equal to the
  boolean \<open>false\<close> and the parameter \<open>include_adult\<close> is the string \<open>true\<close>; in every
  other case the filter passed is \<open>true\<close>.
\<close>

theorem adult_filter_relaxed_iff:
  assumes "searchParams_get req ''q'' = Some q" and "q \<noteq> []"
    and "resolveUserName req = Some u" and "u \<noteq> []"
    and "getUserSettings env u = Inr settings"
    and "getCacheTime env = Inr t"
  shows "\<exists>filterAdult. filtersPassed (snd (GET env req)) = [filterAdult] \<and>
           (filterAdult = False \<longleftrightarrow>
              (\<exists>s. settings = Some s \<and> filter_adult_content s = Some (JBool False))
              \<and> searchParams_get req ''include_adult'' = Some ''true'')"
proof -
  have "finalShouldFilter env req = False \<longleftrightarrow>
          (\<exists>s. settings = Some s \<and> filter_adult_content s = Some (JBool False))
          \<and> searchParams_get req ''include_adult'' = Some ''true''"
    using assms(3-5)
    by (cases settings)
       (simp_all add: finalShouldFilter_def shouldFilterAdult_def includeAdult_def
                      optional_filter_adult_content_def)
  with GET_filtersPassed [OF assms(1,2,6)] show ?thesis by blast
qed

theorem adult_filter_relaxed_iff_witness:
  "searchParams_get (demo_request [(''q'', ''abc''), (''user'', ''bob''), (''include_adult'', ''true'')] None) ''q''
     = Some ''abc''
   \<and> resolveUserName (demo_request [(''q'', ''abc''), (''user'', ''bob''), (''include_adult'', ''true'')] None)
     = Some ''bob''
   \<and> getUserSettings demo_env ''bob'' = Inr (Some \<lparr>filter_adult_content = Some (JBool False)\<rparr>)
   \<and> getCacheTime demo_env = Inr (Finite False 72 2)
   \<and> filtersPassed (snd (GET demo_env
        (demo_request [(''q'', ''abc''), (''user'', ''bob''), (''include_adult'', ''true'')] None)))
     = [False]
   \<and> filtersPassed (snd (GET demo_env
        (demo_request [(''q'', ''abc''), (''user'', ''bob''), (''include_adult'', ''1'')] None)))
     = [True]"
proof -
  let ?req = "demo_request [(''q'', ''abc''), (''user'', ''bob''), (''include_adult'', ''true'')] None"
  let ?req' = "demo_request [(''q'', ''abc''), (''user'', ''bob''), (''include_adult'', ''1'')] None"
  have q: "searchParams_get ?req ''q'' = Some ''abc''" "searchParams_get ?req' ''q'' = Some ''abc''"
    by (simp_all add: searchParams_get_def demo_request_def)
  have ne: "''abc'' \<noteq> []" "''bob'' \<noteq> []" by simp_all
  have u: "resolveUserName ?req = Some ''bob''" "resolveUserName ?req' = Some ''bob''"
    by (simp_all add: resolveUserName_def searchParams_get_def demo_request_def)
  have s: "getUserSettings demo_env ''bob'' = Inr (Some \<lparr>filter_adult_content = Some (JBool False)\<rparr>)"
    by (simp add: demo_env_def)
  have t: "getCacheTime demo_env = Inr (Finite False 72 2)" by (simp add: demo_env_def)
  have i: "searchParams_get ?req ''include_adult'' = Some ''true''"
    "searchParams_get ?req' ''include_adult'' = Some ''1''"
    by (simp_all add: searchParams_get_def demo_request_def)
  from adult_filter_relaxed_iff [OF q(1) ne(1) u(1) ne(2) s t] i(1)
  have "filtersPassed (snd (GET demo_env ?req)) = [False]" by auto
  moreover from adult_filter_relaxed_iff [OF q(2) ne(1) u(2) ne(2) s t] i(2)
  have "filtersPassed (snd (GET demo_env ?req')) = [True]" by auto
  ultimately show ?thesis using q u s t by simp
qed

text \<open>
  C3. For a request with a resolved user name, \<open>shouldFilterAdult\<close> is \<open>true\<close> when the
  settings lookup throws, when it returns \<open>null\<close> or \<open>undefined\<close>, when the settings have
  no field \<open>filter_adult_content\<close>, and when the field holds any value other than the
  boolean \<open>false\<close>; the filter passed on is then \<open>true\<close> as well.
\<close>

theorem settings_failure_keeps_filter:
  assumes "resolveUserName req = Some u" and "u \<noteq> []"
    and "(\<exists>e. getUserSettings env u = Inl e)
       \<or> getUserSettings env u = Inr None
       \<or> (\<exists>s. getUserSettings env u = Inr (Some s) \<and> filter_adult_content s = None)
       \<or> (\<exists>s v. getUserSettings env u = Inr (Some s) \<and> filter_adult_content s = Some v
                \<and> v \<noteq> JBool False)"
  shows "fst (shouldFilterAdult env (resolveUserName req)) = True \<and> finalShouldFilter env req = True"
  using assms
  by (auto simp: finalShouldFilter_def shouldFilterAdult_def optional_filter_adult_content_def)

theorem settings_failure_keeps_filter_witness:
  "resolveUserName (demo_request [(''q'', ''abc''), (''user'', ''eve''), (''include_adult'', ''true'')] None)
     = Some ''eve''
   \<and> getUserSettings demo_env ''eve'' = Inl (Error ''storage unavailable'')
   \<and> fst (shouldFilterAdult demo_env (resolveUserName
        (demo_request [(''q'', ''abc''), (''user'', ''eve''), (''include_adult'', ''true'')] None))) = True
   \<and> resolveUserName (demo_request [(''q'', ''abc''), (''include_adult'', ''true'')] (Some ''Bearer dan''))
     = Some ''dan''
   \<and> getUserSettings demo_env ''dan'' = Inr (Some \<lparr>filter_adult_content = Some (JString ''false'')\<rparr>)
   \<and> finalShouldFilter demo_env
        (demo_request [(''q'', ''abc''), (''include_adult'', ''true'')] (Some ''Bearer dan'')) = True
   \<and> getUserSettings demo_env ''mia'' = Inr (Some \<lparr>filter_adult_content = None\<rparr>)
   \<and> finalShouldFilter demo_env
        (demo_request [(''q'', ''abc''), (''user'', ''mia''), (''include_adult'', ''true'')] None) = True
   \<and> getUserSettings demo_env ''zoe'' = Inr None
   \<and> finalShouldFilter demo_env
        (demo_request [(''q'', ''abc''), (''user'', ''zoe''), (''include_adult'', ''true'')] None) = True"
proof -
  let ?req = "demo_request [(''q'', ''abc''), (''user'', ''eve''), (''include_adult'', ''true'')] None"
  let ?req' = "demo_request [(''q'', ''abc''), (''include_adult'', ''true'')] (Some ''Bearer dan'')"
  let ?mia = "demo_request [(''q'', ''abc''), (''user'', ''mia''), (''include_adult'', ''true'')] None"
  let ?zoe = "demo_request [(''q'', ''abc''), (''user'', ''zoe''), (''include_adult'', ''true'')] None"
  have u: "resolveUserName ?req = Some ''eve''" "resolveUserName ?req' = Some ''dan''"
    "resolveUserName ?mia = Some ''mia''" "resolveUserName ?zoe = Some ''zoe''"
    by (simp_all add: resolveUserName_def searchParams_get_def headers_get_def demo_request_def
                      startsWith_def substring_def)
  have ne: "''eve'' \<noteq> []" "''dan'' \<noteq> []" "''mia'' \<noteq> []" "''zoe'' \<noteq> []" by simp_all
  have s: "getUserSettings demo_env ''eve'' = Inl (Error ''storage unavailable'')"
    "getUserSettings demo_env ''dan'' = Inr (Some \<lparr>filter_adult_content = Some (JString ''false'')\<rparr>)"
    "getUserSettings demo_env ''mia'' = Inr (Some \<lparr>filter_adult_content = None\<rparr>)"
    "getUserSettings demo_env ''zoe'' = Inr None"
    by (simp_all add: demo_env_def)
  have "fst (shouldFilterAdult demo_env (resolveUserName ?req)) = True"
    using settings_failure_keeps_filter [OF u(1) ne(1)] s(1) by blast
  moreover have "finalShouldFilter demo_env ?req' = True"
    using settings_failure_keeps_filter [OF u(2) ne(2), of demo_env] s(2) by simp
  moreover have "finalShouldFilter demo_env ?mia = True"
    using settings_failure_keeps_filter [OF u(3) ne(3), of demo_env] s(3) by simp
  moreover have "finalShouldFilter demo_env ?zoe = True"
    using settings_failure_keeps_filter [OF u(4) ne(4), of demo_env] s(4) by simp
  ultimately show ?thesis using u s by simp
qed

text \<open>
  C6. Every settings lookup the handler makes is for the resolved user name. That name is
  the parameter \<open>user\<close> when the parameter is present and not empty, whatever the headers
  are. When the parameter is absent or empty, the name is what follows the prefix
  \<open>Bearer\<close> and a space in the header \<open>Authorization\<close>, and there is none when the header is
  absent or does not start so.
\<close>

theorem username_resolution:
  "(\<forall>u\<in>set (lookupsMade (snd (GET env req))). resolveUserName req = Some u)
   \<and> (\<forall>u hs. searchParams_get req ''user'' = Some u \<and> u \<noteq> []
          \<longrightarrow> resolveUserName (req\<lparr>request_headers := hs\<rparr>) = Some u)
   \<and> (\<not> truthy (searchParams_get req ''user'') \<longrightarrow>
        (\<forall>token. headers_get req ''Authorization'' = Some (''Bearer '' @ token)
           \<longrightarrow> resolveUserName req = Some token)
        \<and> ((\<forall>token. headers_get req ''Authorization'' \<noteq> Some (''Bearer '' @ token))
           \<longrightarrow> resolveUserName req = None))"
proof (intro conjI ballI allI impI)
  fix u assume u: "u \<in> set (lookupsMade (snd (GET env req)))"
  then have "u \<in> set (lookupsMade (snd (shouldFilterAdult env (resolveUserName req))))"
    using GET_lookupsMade [of env req] by auto
  then show "resolveUserName req = Some u"
    by (auto simp: shouldFilterAdult_log split: option.splits if_splits)
next
  fix u hs assume "searchParams_get req ''user'' = Some u \<and> u \<noteq> []"
  then show "resolveUserName (req\<lparr>request_headers := hs\<rparr>) = Some u"
    by (simp add: resolveUserName_def searchParams_get_def)
next
  fix token
  assume "\<not> truthy (searchParams_get req ''user'')"
    and "headers_get req ''Authorization'' = Some (''Bearer '' @ token)"
  then show "resolveUserName req = Some token" by (rule resolveUserName_bearer)
next
  assume "\<not> truthy (searchParams_get req ''user'')"
    and "\<forall>token. headers_get req ''Authorization'' \<noteq> Some (''Bearer '' @ token)"
  then show "resolveUserName req = None" by (rule resolveUserName_none)
qed

theorem username_resolution_witness:
  "lookupsMade (snd (GET demo_env (demo_request [(''q'', ''abc''), (''user'', ''bob'')] (Some ''Bearer eve''))))
     = [''bob'']
   \<and> resolveUserName (demo_request [(''q'', ''abc''), (''user'', ''bob'')] (Some ''Bearer eve'')) = Some ''bob''
   \<and> \<not> truthy (searchParams_get (demo_request [(''q'', ''abc''), (''user'', '''')] (Some ''Bearer eve'')) ''user'')
   \<and> resolveUserName (demo_request [(''q'', ''abc''), (''user'', '''')] (Some ''Bearer eve'')) = Some ''eve''
   \<and> resolveUserName (demo_request [(''q'', ''abc'')] (Some ''Basic eve'')) = None"
proof -
  let ?req = "demo_request [(''q'', ''abc''), (''user'', ''bob'')] (Some ''Bearer eve'')"
  let ?req' = "demo_request [(''q'', ''abc''), (''user'', '''')] (Some ''Bearer eve'')"
  let ?req'' = "demo_request [(''q'', ''abc'')] (Some ''Basic eve'')"
  have l: "lookupsMade (snd (GET demo_env ?req)) = [''bob'']"
    by (simp add: demo_defs)
  have "resolveUserName ?req = Some ''bob''"
    using username_resolution [of demo_env ?req] l by simp
  moreover have n: "\<not> truthy (searchParams_get ?req' ''user'')"
    "\<not> truthy (searchParams_get ?req'' ''user'')"
    by (simp_all add: searchParams_get_def demo_request_def)
  moreover have "headers_get ?req' ''Authorization'' = Some (''Bearer '' @ ''eve'')"
    by (simp add: headers_get_def demo_request_def)
  with n(1) have "resolveUserName ?req' = Some ''eve''"
    using username_resolution [of demo_env ?req'] by blast
  moreover have "\<forall>token. headers_get ?req'' ''Authorization'' \<noteq> Some (''Bearer '' @ token)"
    by (simp add: headers_get_def demo_request_def)
  with n(2) have "resolveUserName ?req'' = None"
    using username_resolution [of demo_env ?req''] by blast
  ultimately show ?thesis using l by simp
qed

text \<open>
  C10. A request with a non-empty query for which no user name is resolved (the parameter
  \<open>user\<close> is absent or empty, and the header \<open>Authorization\<close> is absent, does not start with
  \<open>Bearer\<close> and a space, or has nothing after that prefix) makes no settings lookup and
  passes the filter \<open>true\<close> to \<open>getAvailableApiSites\<close>, whatever \<open>include_adult\<close> is.
\<close>

theorem anonymous_never_relaxes:
  assumes "searchParams_get req ''q'' = Some q" and "q \<noteq> []"
    and "getCacheTime env = Inr t"
    and "\<not> truthy (searchParams_get req ''user'')"
    and "\<forall>token. headers_get req ''Authorization'' = Some (''Bearer '' @ token) \<longrightarrow> token = []"
  shows "filtersPassed (snd (GET env req)) = [True] \<and> lookupsMade (snd (GET env req)) = []"
proof -
  have "\<not> truthy (resolveUserName req)"
  proof (cases "\<exists>token. headers_get req ''Authorization'' = Some (''Bearer '' @ token)")
    case True
    then obtain token where h: "headers_get req ''Authorization'' = Some (''Bearer '' @ token)" ..
    with assms(5) have "token = []" by blast
    with resolveUserName_bearer [OF assms(4) h] show ?thesis by simp
  next
    case False
    with resolveUserName_none [OF assms(4)] show ?thesis by simp
  qed
  then have "shouldFilterAdult env (resolveUserName req) = (True, [])"
    by (cases "resolveUserName req") (simp_all add: shouldFilterAdult_def)
  then have "finalShouldFilter env req = True"
    "lookupsMade (snd (shouldFilterAdult env (resolveUserName req))) = []"
    by (simp_all add: finalShouldFilter_def)
  with GET_filtersPassed [OF assms(1-3)] GET_lookupsMade_query [OF assms(1-3)]
  show ?thesis by simp
qed

theorem anonymous_never_relaxes_witness:
  "searchParams_get (demo_request [(''q'', ''abc''), (''include_adult'', ''true'')] (Some ''Bearer '')) ''q''
     = Some ''abc''
   \<and> searchParams_get (demo_request [(''q'', ''abc''), (''include_adult'', ''true'')] (Some ''Bearer ''))
        ''include_adult'' = Some ''true''
   \<and> getCacheTime demo_env = Inr (Finite False 72 2)
   \<and> \<not> truthy (searchParams_get
          (demo_request [(''q'', ''abc''), (''include_adult'', ''true'')] (Some ''Bearer '')) ''user'')
   \<and> filtersPassed (snd (GET demo_env
        (demo_request [(''q'', ''abc''), (''include_adult'', ''true'')] (Some ''Bearer '')))) = [True]
   \<and> lookupsMade (snd (GET demo_env
        (demo_request [(''q'', ''abc''), (''include_adult'', ''true'')] (Some ''Bearer '')))) = []"
proof -
  let ?req = "demo_request [(''q'', ''abc''), (''include_adult'', ''true'')] (Some ''Bearer '')"
  have q: "searchParams_get ?req ''q'' = Some ''abc''"
    and i: "searchParams_get ?req ''include_adult'' = Some ''true''"
    and n: "\<not> truthy (searchParams_get ?req ''user'')"
    by (simp_all add: searchParams_get_def demo_request_def)
  have ne: "''abc'' \<noteq> []" by simp
  have t: "getCacheTime demo_env = Inr (Finite False 72 2)" by (simp add: demo_env_def)
  have h: "\<forall>token. headers_get ?req ''Authorization'' = Some (''Bearer '' @ token) \<longrightarrow> token = []"
    by (simp add: headers_get_def demo_request_def)
  from anonymous_never_relaxes [OF q ne t n h] q i t n show ?thesis by simp
qed

subsection \<open>The searches and the response\<close>

text \<open>
  C2. For a non-empty query and any list of providers, when every call of \<open>searchFromApi\<close>
  returns a promise that is fulfilled or rejected (and \<open>addCorsHeaders\<close> returns on a
  response of status 200), the handler builds one response, of status 200, and returns what
  \<open>addCorsHeaders\<close> makes of it. Its \<open>regular_results\<close> contain the results of every
  fulfilled provider, and nothing else: a rejected provider contributes nothing.
\<close>

theorem provider_failures_isolated:
  assumes "searchParams_get req ''q'' = Some q" and "q \<noteq> []"
    and "getCacheTime env = Inr t"
    and "getAvailableApiSites env (finalShouldFilter env req) = Inr (Some sites)"
    and "\<forall>s\<in>set sites. (\<exists>v. searchFromApi env s q = Inr (Fulfilled v))
                        \<or> (\<exists>e. searchFromApi env s q = Inr (Rejected e))"
    and "\<forall>r. status r = 200 \<longrightarrow> (\<exists>r'. addCorsHeaders env r = Inr r')"
  shows "\<exists>r r'. fst (GET env req) = Inr r' \<and> addCorsHeaders env r = Inr r'
           \<and> responsesBuilt (snd (GET env req)) = [r]
           \<and> status r = 200
           \<and> (\<forall>s\<in>set sites. \<forall>v. searchFromApi env s q = Inr (Fulfilled v)
                  \<longrightarrow> set v \<subseteq> set (regular_results (body r)))
           \<and> (\<forall>x\<in>set (regular_results (body r)).
                  \<exists>s\<in>set sites. \<exists>v. searchFromApi env s q = Inr (Fulfilled v) \<and> x \<in> set v)"
proof -
  have promises: "\<forall>s\<in>set sites. \<exists>p. searchFromApi env s q = Inr p"
    using assms(5) by blast
  from GET_searched [OF assms(1-4) promises assms(6)] obtain r r' where
    out: "fst (GET env req) = Inr r'" "addCorsHeaders env r = Inr r'"
      "responsesBuilt (snd (GET env req)) = [r]" "status r = 200"
    and res: "regular_results (body r) =
               concat (map (\<lambda>s. case searchFromApi env s q of
                                   Inr (Fulfilled v) \<Rightarrow> v | _ \<Rightarrow> []) sites)"
    by blast
  have all: "\<forall>s\<in>set sites. \<forall>v. searchFromApi env s q = Inr (Fulfilled v)
               \<longrightarrow> set v \<subseteq> set (regular_results (body r))"
    unfolding res by force
  have only: "\<forall>x\<in>set (regular_results (body r)).
               \<exists>s\<in>set sites. \<exists>v. searchFromApi env s q = Inr (Fulfilled v) \<and> x \<in> set v"
    unfolding res by (auto split: sum.splits settled.splits) (metis)
  from out all only show ?thesis by blast
qed

theorem provider_failures_isolated_witness:
  "searchParams_get (demo_request [(''q'', ''abc'')] None) ''q'' = Some ''abc''
   \<and> getCacheTime demo_env = Inr (Finite False 72 2)
   \<and> getAvailableApiSites demo_env (finalShouldFilter demo_env (demo_request [(''q'', ''abc'')] None))
       = Inr (Some [''alpha'', ''beta'', ''gamma''])
   \<and> searchFromApi demo_env ''alpha'' ''abc'' = Inr (Fulfilled [''alpha/abc/1'', ''alpha/abc/2''])
   \<and> searchFromApi demo_env ''beta'' ''abc'' = Inr (Rejected (Error ''timeout''))
   \<and> searchFromApi demo_env ''gamma'' ''abc'' = Inr (Fulfilled [''gamma/abc/1'', ''gamma/abc/2''])
   \<and> (\<exists>r r'. fst (GET demo_env (demo_request [(''q'', ''abc'')] None)) = Inr r'
         \<and> addCorsHeaders demo_env r = Inr r'
         \<and> responsesBuilt (snd (GET demo_env (demo_request [(''q'', ''abc'')] None))) = [r]
         \<and> status r = 200
         \<and> set [''alpha/abc/1'', ''alpha/abc/2''] \<subseteq> set (regular_results (body r))
         \<and> set [''gamma/abc/1'', ''gamma/abc/2''] \<subseteq> set (regular_results (body r)))"
proof -
  let ?req = "demo_request [(''q'', ''abc'')] None"
  have q: "searchParams_get ?req ''q'' = Some ''abc''"
    by (simp add: searchParams_get_def demo_request_def)
  have ne: "''abc'' \<noteq> []" by simp
  have t: "getCacheTime demo_env = Inr (Finite False 72 2)" by (simp add: demo_env_def)
  have f: "finalShouldFilter demo_env ?req = True"
    by (simp add: finalShouldFilter_def shouldFilterAdult_def resolveUserName_def
                  searchParams_get_def headers_get_def demo_request_def)
  have sites: "getAvailableApiSites demo_env (finalShouldFilter demo_env ?req)
                 = Inr (Some [''alpha'', ''beta'', ''gamma''])"
    by (simp add: f) (simp add: demo_env_def)
  have s: "searchFromApi demo_env ''alpha'' ''abc'' = Inr (Fulfilled [''alpha/abc/1'', ''alpha/abc/2''])"
    "searchFromApi demo_env ''beta'' ''abc'' = Inr (Rejected (Error ''timeout''))"
    "searchFromApi demo_env ''gamma'' ''abc'' = Inr (Fulfilled [''gamma/abc/1'', ''gamma/abc/2''])"
    by (simp_all add: demo_env_def)
  have settle: "\<forall>s\<in>set [''alpha'', ''beta'', ''gamma''].
                  (\<exists>v. searchFromApi demo_env s ''abc'' = Inr (Fulfilled v))
                  \<or> (\<exists>e. searchFromApi demo_env s ''abc'' = Inr (Rejected e))"
    using s by simp
  have cors: "\<forall>r. status r = 200 \<longrightarrow> (\<exists>r'. addCorsHeaders demo_env r = Inr r')"
    by (simp add: demo_env_def)
  from provider_failures_isolated [OF q ne t sites settle cors] obtain r r' where
    "fst (GET demo_env ?req) = Inr r'" "addCorsHeaders demo_env r = Inr r'"
    "responsesBuilt (snd (GET demo_env ?req)) = [r]" "status r = 200"
    and all: "\<forall>s\<in>set [''alpha'', ''beta'', ''gamma'']. \<forall>v.
                searchFromApi demo_env s ''abc'' = Inr (Fulfilled v)
                \<longrightarrow> set v \<subseteq> set (regular_results (body r))"
    by blast
  moreover from all s(1) have "set [''alpha/abc/1'', ''alpha/abc/2''] \<subseteq> set (regular_results (body r))"
    by (metis list.set_intros(1))
  moreover from all s(3) have "set [''gamma/abc/1'', ''gamma/abc/2''] \<subseteq> set (regular_results (body r))"
    by (metis list.set_intros(1) list.set_intros(2))
  ultimately show ?thesis using q t sites s by blast
qed

text \<open>
  C9. For a non-empty query and a non-empty list of providers, each of whose searches
  returns a promise, the providers are queried in the order of the list and
  \<open>regular_results\<close> is the concatenation, in that order, of the results of the providers
  whose promise is fulfilled.
\<close>

theorem regular_results_in_provider_order:
  assumes "searchParams_get req ''q'' = Some q" and "q \<noteq> []"
    and "getCacheTime env = Inr t"
    and "getAvailableApiSites env (finalShouldFilter env req) = Inr (Some sites)"
    and "sites \<noteq> []"
    and "\<forall>s\<in>set sites. \<exists>p. searchFromApi env s q = Inr p"
    and "\<forall>r. status r = 200 \<longrightarrow> (\<exists>r'. addCorsHeaders env r = Inr r')"
  shows "\<exists>r r'. fst (GET env req) = Inr r' \<and> addCorsHeaders env r = Inr r'
           \<and> responsesBuilt (snd (GET env req)) = [r]
           \<and> providersQueried (snd (GET env req)) = sites
           \<and> regular_results (body r) =
               concat (map (\<lambda>s. case searchFromApi env s q of
                                   Inr (Fulfilled v) \<Rightarrow> v | _ \<Rightarrow> []) sites)"
  using GET_searched [OF assms(1-4) assms(6,7)] by blast

theorem regular_results_in_provider_order_witness:
  "searchParams_get
     (demo_request [(''q'', ''abc''), (''user'', ''bob''), (''include_adult'', ''true'')] None) ''q''
     = Some ''abc''
   \<and> getCacheTime demo_env = Inr (Finite False 72 2)
   \<and> getAvailableApiSites demo_env (finalShouldFilter demo_env
        (demo_request [(''q'', ''abc''), (''user'', ''bob''), (''include_adult'', ''true'')] None))
       = Inr (Some [''alpha'', ''beta'', ''gamma'', ''adult''])
   \<and> (\<exists>r r'. fst (GET demo_env
                 (demo_request [(''q'', ''abc''), (''user'', ''bob''), (''include_adult'', ''true'')] None))
               = Inr r'
         \<and> addCorsHeaders demo_env r = Inr r'
         \<and> regular_results (body r) =
             [''alpha/abc/1'', ''alpha/abc/2'', ''gamma/abc/1'', ''gamma/abc/2'',
              ''adult/abc/1'', ''adult/abc/2''])
   \<and> providersQueried (snd (GET demo_env
        (demo_request [(''q'', ''abc''), (''user'', ''bob''), (''include_adult'', ''true'')] None)))
       = [''alpha'', ''beta'', ''gamma'', ''adult'']"
proof -
  let ?req = "demo_request [(''q'', ''abc''), (''user'', ''bob''), (''include_adult'', ''true'')] None"
  have q: "searchParams_get ?req ''q'' = Some ''abc''"
    by (simp add: searchParams_get_def demo_request_def)
  have ne: "''abc'' \<noteq> []" "[''alpha'', ''beta'', ''gamma'', ''adult''] \<noteq> []" by simp_all
  have t: "getCacheTime demo_env = Inr (Finite False 72 2)" by (simp add: demo_env_def)
  have f: "finalShouldFilter demo_env ?req = False"
    by (simp add: finalShouldFilter_def shouldFilterAdult_def resolveUserName_def includeAdult_def
                  optional_filter_adult_content_def searchParams_get_def headers_get_def
                  demo_request_def demo_env_def)
  have sites: "getAvailableApiSites demo_env (finalShouldFilter demo_env ?req)
                 = Inr (Some [''alpha'', ''beta'', ''gamma'', ''adult''])"
    by (simp add: f) (simp add: demo_env_def)
  have promises: "\<forall>s\<in>set [''alpha'', ''beta'', ''gamma'', ''adult''].
                    \<exists>p. searchFromApi demo_env s ''abc'' = Inr p"
    by (simp add: demo_env_def)
  have cors: "\<forall>r. status r = 200 \<longrightarrow> (\<exists>r'. addCorsHeaders demo_env r = Inr r')"
    by (simp add: demo_env_def)
  have val: "concat (map (\<lambda>s. case searchFromApi demo_env s ''abc'' of
                                   Inr (Fulfilled v) \<Rightarrow> v | _ \<Rightarrow> [])
                        [''alpha'', ''beta'', ''gamma'', ''adult''])
             = [''alpha/abc/1'', ''alpha/abc/2'', ''gamma/abc/1'', ''gamma/abc/2'',
                ''adult/abc/1'', ''adult/abc/2'']"
    by (simp add: demo_env_def)
  from regular_results_in_provider_order [OF q ne(1) t sites ne(2) promises cors]
  show ?thesis using q t sites unfolding val by blast
qed

text \<open>
  C5. When \<open>getCacheTime\<close> returns \<open>t\<close>, there is one response \<open>r\<close>, of status 200, with
  the body of two empty lists and the three cache headers made from \<open>t\<close>, such that: a
  request whose \<open>q\<close> is missing or empty is answered by \<open>addCorsHeaders r\<close> after no other
  call than \<open>getCacheTime\<close>, so that no provider is queried; and a request with a query
  whose list of providers is \<open>null\<close>, \<open>undefined\<close> or empty builds \<open>r\<close> and no other
  response, queries no provider, and is answered by what \<open>addCorsHeaders\<close> returns for \<open>r\<close>.
\<close>

theorem empty_query_or_no_providers:
  assumes "getCacheTime env = Inr t"
  shows "\<exists>r. status r = 200
           \<and> body r = \<lparr>regular_results = [], adult_results = [], error = None\<rparr>
           \<and> headers r =
               [(''Cache-Control'',
                   ''public, max-age='' @ numberToString t @ '', s-maxage='' @ numberToString t),
                (''CDN-Cache-Control'', ''public, s-maxage='' @ numberToString t),
                (''Vercel-CDN-Cache-Control'', ''public, s-maxage='' @ numberToString t)]
           \<and> (\<not> truthy (searchParams_get req ''q'') \<longrightarrow>
                 GET env req = (addCorsHeaders env r, [Call_getCacheTime, Call_addCorsHeaders r])
                 \<and> providersQueried (snd (GET env req)) = [])
           \<and> (truthy (searchParams_get req ''q'')
                \<and> (getAvailableApiSites env (finalShouldFilter env req) = Inr None
                   \<or> getAvailableApiSites env (finalShouldFilter env req) = Inr (Some []))
               \<longrightarrow> responsesBuilt (snd (tryBlock env req (the (searchParams_get req ''q'')) t)) = [r]
                 \<and> providersQueried (snd (GET env req)) = []
                 \<and> (\<forall>r'. addCorsHeaders env r = Inr r'
                      \<longrightarrow> fst (GET env req) = Inr r' \<and> responsesBuilt (snd (GET env req)) = [r]))"
proof (intro exI [of _ "emptyResponse t"] conjI impI allI)
  show "status (emptyResponse t) = 200"
    and "body (emptyResponse t) = \<lparr>regular_results = [], adult_results = [], error = None\<rparr>"
    and "headers (emptyResponse t) =
           [(''Cache-Control'',
               ''public, max-age='' @ numberToString t @ '', s-maxage='' @ numberToString t),
            (''CDN-Cache-Control'', ''public, s-maxage='' @ numberToString t),
            (''Vercel-CDN-Cache-Control'', ''public, s-maxage='' @ numberToString t)]"
    by (simp_all add: emptyResponse_def NextResponse_json_def cacheHeaders_def)
next
  assume "\<not> truthy (searchParams_get req ''q'')"
  from GET_no_query [OF this assms]
  show "GET env req =
          (addCorsHeaders env (emptyResponse t),
           [Call_getCacheTime, Call_addCorsHeaders (emptyResponse t)])"
    and "providersQueried (snd (GET env req)) = []" by simp_all
next
  assume a: "truthy (searchParams_get req ''q'')
             \<and> (getAvailableApiSites env (finalShouldFilter env req) = Inr None
                \<or> getAvailableApiSites env (finalShouldFilter env req) = Inr (Some []))"
  then obtain q where q: "searchParams_get req ''q'' = Some q" "q \<noteq> []"
    by (cases "searchParams_get req ''q''") auto
  from a have tb: "tryBlock env req q t =
           (addCorsHeaders env (emptyResponse t),
            snd (shouldFilterAdult env (resolveUserName req))
              @ [Call_getAvailableApiSites (finalShouldFilter env req),
                 Call_addCorsHeaders (emptyResponse t)])"
    by (intro tryBlock_no_sites) simp
  show "responsesBuilt (snd (tryBlock env req (the (searchParams_get req ''q'')) t))
          = [emptyResponse t]"
    using tb q by simp
  show "providersQueried (snd (GET env req)) = []"
    using tb by (cases "addCorsHeaders env (emptyResponse t)") (simp_all add: GET_query [OF q assms])
  fix r' assume "addCorsHeaders env (emptyResponse t) = Inr r'"
  with tb show "fst (GET env req) = Inr r'"
    and "responsesBuilt (snd (GET env req)) = [emptyResponse t]"
    by (simp_all add: GET_query [OF q assms])
qed

theorem empty_query_or_no_providers_witness:
  "getCacheTime demo_env = Inr (Finite False 72 2)
   \<and> \<not> truthy (searchParams_get (demo_request [(''q'', ''''), (''user'', ''bob'')] None) ''q'')
   \<and> GET demo_env (demo_request [(''q'', ''''), (''user'', ''bob'')] None) =
       (Inr \<lparr>status = 200,
             body = \<lparr>regular_results = [], adult_results = [], error = None\<rparr>,
             headers = [(''Cache-Control'', ''public, max-age=7200, s-maxage=7200''),
                        (''CDN-Cache-Control'', ''public, s-maxage=7200''),
                        (''Vercel-CDN-Cache-Control'', ''public, s-maxage=7200''),
                        (''Access-Control-Allow-Origin'', ''*'')]\<rparr>,
        [Call_getCacheTime,
         Call_addCorsHeaders
           \<lparr>status = 200,
            body = \<lparr>regular_results = [], adult_results = [], error = None\<rparr>,
            headers = [(''Cache-Control'', ''public, max-age=7200, s-maxage=7200''),
                       (''CDN-Cache-Control'', ''public, s-maxage=7200''),
                       (''Vercel-CDN-Cache-Control'', ''public, s-maxage=7200'')]\<rparr>])
   \<and> truthy (searchParams_get (demo_request [(''q'', ''abc'')] None) ''q'')
   \<and> getAvailableApiSites (demo_env\<lparr>getAvailableApiSites := \<lambda>filterAdult. Inr (Some [])\<rparr>)
        (finalShouldFilter (demo_env\<lparr>getAvailableApiSites := \<lambda>filterAdult. Inr (Some [])\<rparr>)
           (demo_request [(''q'', ''abc'')] None)) = Inr (Some [])
   \<and> fst (GET (demo_env\<lparr>getAvailableApiSites := \<lambda>filterAdult. Inr (Some [])\<rparr>)
             (demo_request [(''q'', ''abc'')] None)) =
       Inr \<lparr>status = 200,
            body = \<lparr>regular_results = [], adult_results = [], error = None\<rparr>,
            headers = [(''Cache-Control'', ''public, max-age=7200, s-maxage=7200''),
                       (''CDN-Cache-Control'', ''public, s-maxage=7200''),
                       (''Vercel-CDN-Cache-Control'', ''public, s-maxage=7200''),
                       (''Access-Control-Allow-Origin'', ''*'')]\<rparr>
   \<and> providersQueried (snd (GET (demo_env\<lparr>getAvailableApiSites := \<lambda>filterAdult. Inr (Some [])\<rparr>)
                                 (demo_request [(''q'', ''abc'')] None))) = []"
proof -
  let ?req = "demo_request [(''q'', ''''), (''user'', ''bob'')] None"
  let ?req' = "demo_request [(''q'', ''abc'')] None"
  let ?env' = "demo_env\<lparr>getAvailableApiSites := \<lambda>filterAdult. Inr (Some [])\<rparr>"
  let ?r = "\<lparr>status = 200,
            body = \<lparr>regular_results = [], adult_results = [], error = None\<rparr>,
            headers = [(''Cache-Control'', ''public, max-age=7200, s-maxage=7200''),
                       (''CDN-Cache-Control'', ''public, s-maxage=7200''),
                       (''Vercel-CDN-Cache-Control'', ''public, s-maxage=7200'')]\<rparr>
            :: string response"
  let ?r' = "?r\<lparr>headers := headers ?r @ [(''Access-Control-Allow-Origin'', ''*'')]\<rparr>"
  have t: "getCacheTime demo_env = Inr (Finite False 72 2)" "getCacheTime ?env' = Inr (Finite False 72 2)"
    by (simp_all add: demo_env_def)
  have n: "\<not> truthy (searchParams_get ?req ''q'')" and y: "truthy (searchParams_get ?req' ''q'')"
    by (simp_all add: searchParams_get_def demo_request_def)
  have sites: "getAvailableApiSites ?env' (finalShouldFilter ?env' ?req') = Inr (Some [])"
    by simp
  have num: "finiteToString 72 2 = ''7200''"
    by (rule cacheTime_text)
  have cors: "addCorsHeaders demo_env ?r = Inr ?r'" "addCorsHeaders ?env' ?r = Inr ?r'"
    by (simp_all add: demo_env_def)
  from empty_query_or_no_providers [OF t(1), of ?req] obtain r where
    r: "status r = 200" "body r = \<lparr>regular_results = [], adult_results = [], error = None\<rparr>"
      "headers r = [(''Cache-Control'', ''public, max-age=7200, s-maxage=7200''),
                    (''CDN-Cache-Control'', ''public, s-maxage=7200''),
                    (''Vercel-CDN-Cache-Control'', ''public, s-maxage=7200'')]"
    and g: "GET demo_env ?req = (addCorsHeaders demo_env r, [Call_getCacheTime, Call_addCorsHeaders r])"
    using n by (auto simp: num)
  from r have "r = ?r" by simp
  with g cors(1) have 1: "GET demo_env ?req = (Inr ?r', [Call_getCacheTime, Call_addCorsHeaders ?r])"
    by simp
  from empty_query_or_no_providers [OF t(2), of ?req'] obtain r2 where
    r2: "status r2 = 200" "body r2 = \<lparr>regular_results = [], adult_results = [], error = None\<rparr>"
      "headers r2 = [(''Cache-Control'', ''public, max-age=7200, s-maxage=7200''),
                     (''CDN-Cache-Control'', ''public, s-maxage=7200''),
                     (''Vercel-CDN-Cache-Control'', ''public, s-maxage=7200'')]"
    and p: "providersQueried (snd (GET ?env' ?req')) = []"
    and g2: "\<forall>r'. addCorsHeaders ?env' r2 = Inr r' \<longrightarrow> fst (GET ?env' ?req') = Inr r'"
    using y sites by (auto simp: num)
  from r2 have "r2 = ?r" by simp
  with g2 cors(2) have 2: "fst (GET ?env' ?req') = Inr ?r'" by blast
  from 1 2 p t(1) n y sites show ?thesis by simp
qed

text \<open>
  C4, as amended. For a request with a non-empty query (and \<open>getCacheTime\<close> returning), when
  \<open>getAvailableApiSites\<close> throws, or a call of \<open>searchFromApi\<close> itself throws, or
  \<open>addCorsHeaders\<close> throws on the response built inside the \<open>try\<close>, the last response
  the handler builds is the one of status 500 whose two result lists are empty and whose
  error message is not empty, and the outcome of the handler is that of \<open>addCorsHeaders\<close>
  on this response: when \<open>addCorsHeaders\<close> returns, the handler answers with what it
  returned, and when it throws again, so does the handler. Rejected searches and a throw of
  the settings lookup never reach the \<open>catch\<close> of the handler.
\<close>

theorem thrown_in_try_gives_500:
  assumes "searchParams_get req ''q'' = Some q" and "q \<noteq> []"
    and "getCacheTime env = Inr t"
    and "(\<exists>e. getAvailableApiSites env (finalShouldFilter env req) = Inl e)
       \<or> (\<exists>sites s e. getAvailableApiSites env (finalShouldFilter env req) = Inr (Some sites)
              \<and> s \<in> set sites \<and> searchFromApi env s q = Inl e)
       \<or> (\<exists>r e. r \<in> set (responsesBuilt (snd (tryBlock env req q t)))
              \<and> addCorsHeaders env r = Inl e)"
  shows "\<exists>r. status r = 500
           \<and> regular_results (body r) = [] \<and> adult_results (body r) = []
           \<and> (\<exists>message. error (body r) = Some message \<and> message \<noteq> [])
           \<and> headers r = []
           \<and> last (responsesBuilt (snd (GET env req))) = r
           \<and> (\<forall>r'. addCorsHeaders env r = Inr r' \<longrightarrow> fst (GET env req) = Inr r')
           \<and> (\<forall>e. addCorsHeaders env r = Inl e \<longrightarrow> fst (GET env req) = Inl e)"
proof -
  from tryBlock_throws [OF assms(4)] obtain e log1 where
    "tryBlock env req q t = (Inl e, log1)"
    by (cases "tryBlock env req q t") auto
  then have "last (responsesBuilt (snd (GET env req))) = errorResponse"
    and "fst (GET env req) = addCorsHeaders env errorResponse"
    by (simp_all add: GET_query [OF assms(1-3)])
  moreover have "status (errorResponse :: 'b response) = 500"
    and "regular_results (body (errorResponse :: 'b response)) = []"
    and "adult_results (body (errorResponse :: 'b response)) = []"
    and "error (body (errorResponse :: 'b response)) = Some searchFailed"
    and "headers (errorResponse :: 'b response) = []"
    and "searchFailed \<noteq> []"
    by (simp_all add: errorResponse_def NextResponse_json_def searchFailed_def)
  ultimately show ?thesis by (intro exI [of _ errorResponse]) simp
qed

theorem thrown_in_try_gives_500_witness:
  "searchParams_get (demo_request [(''q'', ''abc'')] None) ''q'' = Some ''abc''
   \<and> getCacheTime demo_env = Inr (Finite False 72 2)
   \<and> getAvailableApiSites (demo_env\<lparr>getAvailableApiSites := \<lambda>filterAdult. Inl (Error ''no config'')\<rparr>)
        (finalShouldFilter (demo_env\<lparr>getAvailableApiSites := \<lambda>filterAdult. Inl (Error ''no config'')\<rparr>)
           (demo_request [(''q'', ''abc'')] None)) = Inl (Error ''no config'')
   \<and> fst (GET (demo_env\<lparr>getAvailableApiSites := \<lambda>filterAdult. Inl (Error ''no config'')\<rparr>)
             (demo_request [(''q'', ''abc'')] None)) =
       Inr \<lparr>status = 500,
            body = \<lparr>regular_results = [], adult_results = [], error = Some searchFailed\<rparr>,
            headers = [(''Access-Control-Allow-Origin'', ''*'')]\<rparr>
   \<and> searchFromApi (demo_env\<lparr>searchFromApi := \<lambda>site query. Inl (Error ''bad address'')\<rparr>)
        ''beta'' ''abc'' = Inl (Error ''bad address'')
   \<and> fst (GET (demo_env\<lparr>searchFromApi := \<lambda>site query. Inl (Error ''bad address'')\<rparr>)
             (demo_request [(''q'', ''abc'')] None)) =
       Inr \<lparr>status = 500,
            body = \<lparr>regular_results = [], adult_results = [], error = Some searchFailed\<rparr>,
            headers = [(''Access-Control-Allow-Origin'', ''*'')]\<rparr>
   \<and> map status (responsesBuilt (snd (tryBlock
         (demo_env\<lparr>addCorsHeaders := \<lambda>r. if status r = 200 then Inl (Error ''cors'') else Inr r\<rparr>)
         (demo_request [(''q'', ''abc'')] None) ''abc'' (Finite False 72 2)))) = [200]
   \<and> fst (GET (demo_env\<lparr>addCorsHeaders := \<lambda>r. if status r = 200 then Inl (Error ''cors'') else Inr r\<rparr>)
             (demo_request [(''q'', ''abc'')] None)) =
       Inr \<lparr>status = 500,
            body = \<lparr>regular_results = [], adult_results = [], error = Some searchFailed\<rparr>,
            headers = []\<rparr>"
proof -
  let ?req = "demo_request [(''q'', ''abc'')] None"
  let ?env1 = "demo_env\<lparr>getAvailableApiSites := \<lambda>filterAdult. Inl (Error ''no config'')\<rparr>"
  let ?env2 = "demo_env\<lparr>searchFromApi := \<lambda>site query. Inl (Error ''bad address'')\<rparr>"
  let ?env3 = "demo_env\<lparr>addCorsHeaders := \<lambda>r. if status r = 200 then Inl (Error ''cors'') else Inr r\<rparr>"
  let ?r = "\<lparr>status = 500,
             body = \<lparr>regular_results = [], adult_results = [], error = Some searchFailed\<rparr>,
             headers = []\<rparr> :: string response"
  have q: "searchParams_get ?req ''q'' = Some ''abc''"
    by (simp add: searchParams_get_def demo_request_def)
  have ne: "''abc'' \<noteq> []" by simp
  have t: "getCacheTime demo_env = Inr (Finite False 72 2)"
    "getCacheTime ?env1 = Inr (Finite False 72 2)" "getCacheTime ?env2 = Inr (Finite False 72 2)"
    "getCacheTime ?env3 = Inr (Finite False 72 2)"
    by (simp_all add: demo_env_def)
  have f: "finalShouldFilter ?env2 ?req = True"
    by (simp add: finalShouldFilter_def shouldFilterAdult_def resolveUserName_def
                  searchParams_get_def headers_get_def demo_request_def)
  have is_r: "r = ?r" if "status r = 500" "regular_results (body r) = []"
    "adult_results (body r) = []" "error (body r) = Some m" "headers r = []"
    "last (responsesBuilt log) = r" "last (responsesBuilt log) = ?r" for r m log
    using that by simp
  \<comment> \<open>the list of providers cannot be had\<close>
  have c1: "getAvailableApiSites ?env1 (finalShouldFilter ?env1 ?req) = Inl (Error ''no config'')"
    by simp
  then have cause1: "(\<exists>e. getAvailableApiSites ?env1 (finalShouldFilter ?env1 ?req) = Inl e)
       \<or> (\<exists>sites s e. getAvailableApiSites ?env1 (finalShouldFilter ?env1 ?req) = Inr (Some sites)
              \<and> s \<in> set sites \<and> searchFromApi ?env1 s ''abc'' = Inl e)
       \<or> (\<exists>r e. r \<in> set (responsesBuilt (snd (tryBlock ?env1 ?req ''abc'' (Finite False 72 2))))
              \<and> addCorsHeaders ?env1 r = Inl e)"
    by blast
  have l1: "last (responsesBuilt (snd (GET ?env1 ?req))) = ?r"
    by (simp add: demo_defs)
  from thrown_in_try_gives_500 [OF q ne t(2) cause1] l1
  have "\<forall>r'. addCorsHeaders ?env1 ?r = Inr r' \<longrightarrow> fst (GET ?env1 ?req) = Inr r'"
    by (metis (no_types, lifting) is_r)
  then have 1: "fst (GET ?env1 ?req) = Inr (?r\<lparr>headers := [(''Access-Control-Allow-Origin'', ''*'')]\<rparr>)"
    by (simp add: demo_env_def)
  \<comment> \<open>a search throws before it returns a promise\<close>
  have c2: "searchFromApi ?env2 ''beta'' ''abc'' = Inl (Error ''bad address'')" by simp
  have "getAvailableApiSites ?env2 (finalShouldFilter ?env2 ?req)
          = Inr (Some [''alpha'', ''beta'', ''gamma''])"
    by (simp add: f) (simp add: demo_env_def)
  with c2 have cause2: "(\<exists>e. getAvailableApiSites ?env2 (finalShouldFilter ?env2 ?req) = Inl e)
       \<or> (\<exists>sites s e. getAvailableApiSites ?env2 (finalShouldFilter ?env2 ?req) = Inr (Some sites)
              \<and> s \<in> set sites \<and> searchFromApi ?env2 s ''abc'' = Inl e)
       \<or> (\<exists>r e. r \<in> set (responsesBuilt (snd (tryBlock ?env2 ?req ''abc'' (Finite False 72 2))))
              \<and> addCorsHeaders ?env2 r = Inl e)"
    by (intro disjI2 disjI1 exI [of _ "[''alpha'', ''beta'', ''gamma'']"] exI [of _ "''beta''"]
              exI [of _ "Error ''bad address''"]) simp
  have l2: "last (responsesBuilt (snd (GET ?env2 ?req))) = ?r"
    by (simp add: demo_defs)
  from thrown_in_try_gives_500 [OF q ne t(3) cause2] l2
  have "\<forall>r'. addCorsHeaders ?env2 ?r = Inr r' \<longrightarrow> fst (GET ?env2 ?req) = Inr r'"
    by (metis (no_types, lifting) is_r)
  then have 2: "fst (GET ?env2 ?req) = Inr (?r\<lparr>headers := [(''Access-Control-Allow-Origin'', ''*'')]\<rparr>)"
    by (simp add: demo_env_def)
  \<comment> \<open>\<open>addCorsHeaders\<close> throws on the response of status 200\<close>
  obtain r200 where b3: "responsesBuilt (snd (tryBlock ?env3 ?req ''abc'' (Finite False 72 2))) = [r200]"
    and s3: "status r200 = 200"
    by (simp add: demo_defs)
  then have "addCorsHeaders ?env3 r200 = Inl (Error ''cors'')" by simp
  with b3 have cause3: "(\<exists>e. getAvailableApiSites ?env3 (finalShouldFilter ?env3 ?req) = Inl e)
       \<or> (\<exists>sites s e. getAvailableApiSites ?env3 (finalShouldFilter ?env3 ?req) = Inr (Some sites)
              \<and> s \<in> set sites \<and> searchFromApi ?env3 s ''abc'' = Inl e)
       \<or> (\<exists>r e. r \<in> set (responsesBuilt (snd (tryBlock ?env3 ?req ''abc'' (Finite False 72 2))))
              \<and> addCorsHeaders ?env3 r = Inl e)"
    by (intro disjI2 exI [of _ r200] exI [of _ "Error ''cors''"]) simp
  have l3: "last (responsesBuilt (snd (GET ?env3 ?req))) = ?r"
    by (simp add: demo_defs)
  from thrown_in_try_gives_500 [OF q ne t(4) cause3] l3
  have "\<forall>r'. addCorsHeaders ?env3 ?r = Inr r' \<longrightarrow> fst (GET ?env3 ?req) = Inr r'"
    by (metis (no_types, lifting) is_r)
  then have 3: "fst (GET ?env3 ?req) = Inr ?r" by simp
  from q t(1) c1 1 c2 2 b3 s3 3 show ?thesis by simp
qed

text \<open>
  The claim C4 as it was stated fails: for the user \<open>eve\<close> the settings lookup, a step
  inside the \<open>try\<close>, throws, and the answer is the ordinary one of status 200.
\<close>

theorem settings_lookup_throw_answers_200:
  "searchParams_get (demo_request [(''q'', ''abc''), (''user'', ''eve'')] None) ''q'' = Some ''abc''
   \<and> lookupsMade (snd (GET demo_env (demo_request [(''q'', ''abc''), (''user'', ''eve'')] None)))
       = [''eve'']
   \<and> getUserSettings demo_env ''eve'' = Inl (Error ''storage unavailable'')
   \<and> fst (GET demo_env (demo_request [(''q'', ''abc''), (''user'', ''eve'')] None)) =
       Inr \<lparr>status = 200,
            body = \<lparr>regular_results =
                      [''alpha/abc/1'', ''alpha/abc/2'', ''gamma/abc/1'', ''gamma/abc/2''],
                    adult_results = [], error = None\<rparr>,
            headers = [(''Cache-Control'', ''public, max-age=7200, s-maxage=7200''),
                       (''CDN-Cache-Control'', ''public, s-maxage=7200''),
                       (''Vercel-CDN-Cache-Control'', ''public, s-maxage=7200''),
                       (''Access-Control-Allow-Origin'', ''*'')]\<rparr>"
  by (simp add: demo_defs)

text \<open>
  C7. The handler calls \<open>getCacheTime\<close> once. Every response of status 200 that it builds
  has exactly the three headers \<open>Cache-Control\<close>, \<open>CDN-Cache-Control\<close> and
  \<open>Vercel-CDN-Cache-Control\<close>, and each \<open>max-age\<close> and \<open>s-maxage\<close> in them is the text
  that \<open>Number::toString\<close> gives for the value that \<open>getCacheTime\<close> returned, a text that
  no other number has (the two zeros apart, which both read 0). When \<open>getCacheTime\<close>
  returns, the handler answers with what \<open>addCorsHeaders\<close> makes of the last response built.
\<close>

theorem cache_headers_from_one_cache_time:
  "cacheTimeCalls (snd (GET env req)) = 1
   \<and> (\<forall>r\<in>set (responsesBuilt (snd (GET env req))). status r = 200 \<longrightarrow>
        (\<exists>t. getCacheTime env = Inr t
           \<and> headers r =
               [(''Cache-Control'',
                   ''public, max-age='' @ numberToString t @ '', s-maxage='' @ numberToString t),
                (''CDN-Cache-Control'', ''public, s-maxage='' @ numberToString t),
                (''Vercel-CDN-Cache-Control'', ''public, s-maxage='' @ numberToString t)]
           \<and> (\<forall>n. wellFormed t \<and> wellFormed n \<and> numberToString n = numberToString t
                  \<longrightarrow> n = t \<or> (\<exists>x y. n = Zero x \<and> t = Zero y))))
   \<and> (\<forall>t. getCacheTime env = Inr t \<longrightarrow>
        responsesBuilt (snd (GET env req)) \<noteq> []
        \<and> fst (GET env req) = addCorsHeaders env (last (responsesBuilt (snd (GET env req)))))"
proof (intro conjI ballI impI allI)
  show "cacheTimeCalls (snd (GET env req)) = 1" by (rule GET_cacheTimeCalls)
next
  fix r assume "r \<in> set (responsesBuilt (snd (GET env req)))" and s: "status r = 200"
  from GET_responsesBuilt [OF this(1)] obtain t where
    t: "getCacheTime env = Inr t"
    and "status r = 200 \<and> headers r = cacheHeaders t \<and> adult_results (body r) = []
         \<or> r = errorResponse" by blast
  with s have "headers r = cacheHeaders t"
    by (auto simp: errorResponse_def NextResponse_json_def)
  then have "headers r =
               [(''Cache-Control'',
                   ''public, max-age='' @ numberToString t @ '', s-maxage='' @ numberToString t),
                (''CDN-Cache-Control'', ''public, s-maxage='' @ numberToString t),
                (''Vercel-CDN-Cache-Control'', ''public, s-maxage='' @ numberToString t)]"
    by (simp add: cacheHeaders_def)
  moreover have "\<forall>n. wellFormed t \<and> wellFormed n \<and> numberToString n = numberToString t
                  \<longrightarrow> n = t \<or> (\<exists>x y. n = Zero x \<and> t = Zero y)"
    using numberToString_inj by blast
  ultimately show "\<exists>t. getCacheTime env = Inr t
           \<and> headers r =
               [(''Cache-Control'',
                   ''public, max-age='' @ numberToString t @ '', s-maxage='' @ numberToString t),
                (''CDN-Cache-Control'', ''public, s-maxage='' @ numberToString t),
                (''Vercel-CDN-Cache-Control'', ''public, s-maxage='' @ numberToString t)]
           \<and> (\<forall>n. wellFormed t \<and> wellFormed n \<and> numberToString n = numberToString t
                  \<longrightarrow> n = t \<or> (\<exists>x y. n = Zero x \<and> t = Zero y))"
    using t by blast
next
  fix t assume "getCacheTime env = Inr t"
  from GET_returns_last [OF this]
  show "responsesBuilt (snd (GET env req)) \<noteq> []"
    and "fst (GET env req) = addCorsHeaders env (last (responsesBuilt (snd (GET env req))))"
    by simp_all
qed

theorem cache_headers_from_one_cache_time_witness:
  "cacheTimeCalls (snd (GET demo_env (demo_request [(''q'', ''abc'')] None))) = 1
   \<and> getCacheTime demo_env = Inr (Finite False 72 2)
   \<and> map status (responsesBuilt (snd (GET demo_env (demo_request [(''q'', ''abc'')] None)))) = [200]
   \<and> map headers (responsesBuilt (snd (GET demo_env (demo_request [(''q'', ''abc'')] None)))) =
       [[(''Cache-Control'', ''public, max-age=7200, s-maxage=7200''),
         (''CDN-Cache-Control'', ''public, s-maxage=7200''),
         (''Vercel-CDN-Cache-Control'', ''public, s-maxage=7200'')]]
   \<and> numberToString (Finite False 36 2) \<noteq> numberToString (Finite False 72 2)
   \<and> map headers (responsesBuilt (snd (GET (demo_env\<lparr>getCacheTime := Inr (Finite False 5 (- 1))\<rparr>)
                                              (demo_request [] None)))) =
       [[(''Cache-Control'', ''public, max-age=0.5, s-maxage=0.5''),
         (''CDN-Cache-Control'', ''public, s-maxage=0.5''),
         (''Vercel-CDN-Cache-Control'', ''public, s-maxage=0.5'')]]
   \<and> map headers (responsesBuilt (snd (GET (demo_env\<lparr>getCacheTime := Inr (Finite False 1 21)\<rparr>)
                                              (demo_request [] None)))) =
       [[(''Cache-Control'', ''public, max-age=1e+21, s-maxage=1e+21''),
         (''CDN-Cache-Control'', ''public, s-maxage=1e+21''),
         (''Vercel-CDN-Cache-Control'', ''public, s-maxage=1e+21'')]]
   \<and> map headers (responsesBuilt (snd (GET (demo_env\<lparr>getCacheTime := Inr NaN\<rparr>)
                                              (demo_request [] None)))) =
       [[(''Cache-Control'', ''public, max-age=NaN, s-maxage=NaN''),
         (''CDN-Cache-Control'', ''public, s-maxage=NaN''),
         (''Vercel-CDN-Cache-Control'', ''public, s-maxage=NaN'')]]"
proof -
  let ?req = "demo_request [(''q'', ''abc'')] None"
  let ?none = "demo_request [] None"
  let ?half = "demo_env\<lparr>getCacheTime := Inr (Finite False 5 (- 1))\<rparr>"
  let ?huge = "demo_env\<lparr>getCacheTime := Inr (Finite False 1 21)\<rparr>"
  let ?nan = "demo_env\<lparr>getCacheTime := Inr NaN\<rparr>"
  have t: "getCacheTime demo_env = Inr (Finite False 72 2)" by (simp add: demo_env_def)
  have t': "getCacheTime ?half = Inr (Finite False 5 (- 1))"
    "getCacheTime ?huge = Inr (Finite False 1 21)" "getCacheTime ?nan = Inr NaN"
    by simp_all
  note num = numberToString_examples
  have inst: "headers r =
               [(''Cache-Control'',
                   ''public, max-age='' @ numberToString t @ '', s-maxage='' @ numberToString t),
                (''CDN-Cache-Control'', ''public, s-maxage='' @ numberToString t),
                (''Vercel-CDN-Cache-Control'', ''public, s-maxage='' @ numberToString t)]
             \<and> (\<forall>n. wellFormed t \<and> wellFormed n \<and> numberToString n = numberToString t
                    \<longrightarrow> n = t \<or> (\<exists>x y. n = Zero x \<and> t = Zero y))"
    if built: "responsesBuilt (snd (GET env rq)) = [r]" and ok: "status r = 200"
      and time: "getCacheTime env = Inr t"
    for env :: "(string, string) env" and rq r t
  proof -
    from cache_headers_from_one_cache_time [of env rq]
    have "\<forall>r\<in>set (responsesBuilt (snd (GET env rq))). status r = 200 \<longrightarrow>
        (\<exists>t. getCacheTime env = Inr t
           \<and> headers r =
               [(''Cache-Control'',
                   ''public, max-age='' @ numberToString t @ '', s-maxage='' @ numberToString t),
                (''CDN-Cache-Control'', ''public, s-maxage='' @ numberToString t),
                (''Vercel-CDN-Cache-Control'', ''public, s-maxage='' @ numberToString t)]
           \<and> (\<forall>n. wellFormed t \<and> wellFormed n \<and> numberToString n = numberToString t
                  \<longrightarrow> n = t \<or> (\<exists>x y. n = Zero x \<and> t = Zero y)))"
      by (rule conjunct1 [OF conjunct2])
    moreover have "r \<in> set (responsesBuilt (snd (GET env rq)))" by (simp only: built list.set_intros)
    ultimately obtain t' where time': "getCacheTime env = Inr t'"
      and P: "headers r =
               [(''Cache-Control'',
                   ''public, max-age='' @ numberToString t' @ '', s-maxage='' @ numberToString t'),
                (''CDN-Cache-Control'', ''public, s-maxage='' @ numberToString t'),
                (''Vercel-CDN-Cache-Control'', ''public, s-maxage='' @ numberToString t')]
           \<and> (\<forall>n. wellFormed t' \<and> wellFormed n \<and> numberToString n = numberToString t'
                  \<longrightarrow> n = t' \<or> (\<exists>x y. n = Zero x \<and> t' = Zero y))"
      using ok by blast
    from time' time have eq: "t' = t" by simp
    show ?thesis by (rule P [unfolded eq])
  qed
  have calls: "cacheTimeCalls (snd (GET demo_env ?req)) = 1"
    using cache_headers_from_one_cache_time [of demo_env ?req] by (rule conjunct1)
  obtain r where r: "responsesBuilt (snd (GET demo_env ?req)) = [r]" and s: "status r = 200"
    by (simp add: demo_defs)
  have h: "headers r = [(''Cache-Control'', ''public, max-age=7200, s-maxage=7200''),
                      (''CDN-Cache-Control'', ''public, s-maxage=7200''),
                      (''Vercel-CDN-Cache-Control'', ''public, s-maxage=7200'')]"
    using inst [OF r s t, THEN conjunct1] by (simp only: num(1) append.simps)
  have only: "\<forall>n. wellFormed (Finite False 72 2) \<and> wellFormed n
                 \<and> numberToString n = numberToString (Finite False 72 2)
                 \<longrightarrow> n = Finite False 72 2 \<or> (\<exists>x y. n = Zero x \<and> Finite False 72 2 = Zero y)"
    by (rule inst [OF r s t, THEN conjunct2])
  have wf: "wellFormed (Finite False 72 2)" "wellFormed (Finite False 36 2)" by simp_all
  have other: "numberToString (Finite False 36 2) \<noteq> numberToString (Finite False 72 2)"
  proof
    assume eq: "numberToString (Finite False 36 2) = numberToString (Finite False 72 2)"
    have "Finite False 36 2 = Finite False 72 2
          \<or> (\<exists>x y. Finite False 36 2 = Zero x \<and> Finite False 72 2 = Zero y)"
      by (rule only [THEN spec, THEN mp, OF conjI [OF wf(1) conjI [OF wf(2) eq]]])
    then show False by simp
  qed
  obtain r1 where r1: "responsesBuilt (snd (GET ?half ?none)) = [r1]" and s1: "status r1 = 200"
    by (simp add: demo_defs)
  from inst [OF r1 s1 t'(1), THEN conjunct1]
  have h1: "headers r1 = [(''Cache-Control'', ''public, max-age=0.5, s-maxage=0.5''),
                      (''CDN-Cache-Control'', ''public, s-maxage=0.5''),
                      (''Vercel-CDN-Cache-Control'', ''public, s-maxage=0.5'')]"
    by (simp only: num(3) append.simps)
  obtain r2 where r2: "responsesBuilt (snd (GET ?huge ?none)) = [r2]" and s2: "status r2 = 200"
    by (simp add: demo_defs)
  from inst [OF r2 s2 t'(2), THEN conjunct1]
  have h2: "headers r2 = [(''Cache-Control'', ''public, max-age=1e+21, s-maxage=1e+21''),
                      (''CDN-Cache-Control'', ''public, s-maxage=1e+21''),
                      (''Vercel-CDN-Cache-Control'', ''public, s-maxage=1e+21'')]"
    by (simp only: num(7) append.simps)
  obtain r3 where r3: "responsesBuilt (snd (GET ?nan ?none)) = [r3]" and s3: "status r3 = 200"
    by (simp add: demo_defs)
  from inst [OF r3 s3 t'(3), THEN conjunct1]
  have h3: "headers r3 = [(''Cache-Control'', ''public, max-age=NaN, s-maxage=NaN''),
                      (''CDN-Cache-Control'', ''public, s-maxage=NaN''),
                      (''Vercel-CDN-Cache-Control'', ''public, s-maxage=NaN'')]"
    by (simp only: numberToString.simps append.simps)
  from calls t r s h other r1 h1 r2 h2 r3 h3 show ?thesis by simp
qed

text \<open>
  C8. In every response the handler builds, whatever the request and the outcome,
  \<open>adult_results\<close> is the empty list; and when \<open>getCacheTime\<close> returns, the handler
  answers with what \<open>addCorsHeaders\<close> makes of the last response built.
\<close>

theorem adult_results_always_empty:
  "(\<forall>r\<in>set (responsesBuilt (snd (GET env req))). adult_results (body r) = [])
   \<and> (\<forall>t. getCacheTime env = Inr t \<longrightarrow>
        responsesBuilt (snd (GET env req)) \<noteq> []
        \<and> fst (GET env req) = addCorsHeaders env (last (responsesBuilt (snd (GET env req)))))"
proof (intro conjI ballI impI allI)
  fix r assume "r \<in> set (responsesBuilt (snd (GET env req)))"
  from GET_responsesBuilt [OF this] show "adult_results (body r) = []"
    by (auto simp: errorResponse_def NextResponse_json_def)
next
  fix t assume "getCacheTime env = Inr t"
  from GET_returns_last [OF this]
  show "responsesBuilt (snd (GET env req)) \<noteq> []"
    and "fst (GET env req) = addCorsHeaders env (last (responsesBuilt (snd (GET env req))))"
    by simp_all
qed

theorem adult_results_always_empty_witness:
  "map (\<lambda>r. (status r, adult_results (body r)))
     (responsesBuilt (snd (GET demo_env (demo_request [] None)))) = [(200, [])]
   \<and> map (\<lambda>r. (status r, adult_results (body r)))
     (responsesBuilt (snd (GET demo_env
        (demo_request [(''q'', ''abc''), (''user'', ''bob''), (''include_adult'', ''true'')] None))))
       = [(200, [])]
   \<and> map (\<lambda>r. (status r, adult_results (body r)))
     (responsesBuilt (snd (GET (demo_env\<lparr>getAvailableApiSites := \<lambda>filterAdult. Inr None\<rparr>)
        (demo_request [(''q'', ''abc'')] None)))) = [(200, [])]
   \<and> map (\<lambda>r. (status r, adult_results (body r)))
     (responsesBuilt (snd (GET (demo_env\<lparr>getAvailableApiSites := \<lambda>filterAdult. Inl (Error ''no config'')\<rparr>)
        (demo_request [(''q'', ''abc'')] None)))) = [(500, [])]"
proof -
  let ?req1 = "demo_request [] None"
  let ?req2 = "demo_request [(''q'', ''abc''), (''user'', ''bob''), (''include_adult'', ''true'')] None"
  let ?req3 = "demo_request [(''q'', ''abc'')] None"
  let ?env3 = "demo_env\<lparr>getAvailableApiSites := \<lambda>filterAdult. Inr None\<rparr>"
  let ?env4 = "demo_env\<lparr>getAvailableApiSites := \<lambda>filterAdult. Inl (Error ''no config'')\<rparr>"
  obtain r1 where r1: "responsesBuilt (snd (GET demo_env ?req1)) = [r1]" "status r1 = 200"
    by (simp add: demo_defs)
  obtain r2 where r2: "responsesBuilt (snd (GET demo_env ?req2)) = [r2]" "status r2 = 200"
    by (simp add: demo_defs)
  obtain r3 where r3: "responsesBuilt (snd (GET ?env3 ?req3)) = [r3]" "status r3 = 200"
    by (simp add: demo_defs)
  obtain r4 where r4: "responsesBuilt (snd (GET ?env4 ?req3)) = [r4]" "status r4 = 500"
    by (simp add: demo_defs)
  from adult_results_always_empty [of demo_env ?req1] r1
  have 1: "adult_results (body r1) = []" by simp
  from adult_results_always_empty [of demo_env ?req2] r2
  have 2: "adult_results (body r2) = []" by simp
  from adult_results_always_empty [of ?env3 ?req3] r3
  have 3: "adult_results (body r3) = []" by simp
  from adult_results_always_empty [of ?env4 ?req3] r4
  have 4: "adult_results (body r4) = []" by simp
  from r1 r2 r3 r4 1 2 3 4 show ?thesis by simp
qed

end
